theory Spec2Isabelle
  imports Main "HOL-Library.Sublist"
begin

section \<open>The host: paths, file system, process environment\<close>

text \<open>
  The plugin \<^verbatim>\<open>tox_pipenv/plugin.py\<close> is glue between tox and pipenv. Everything it
  touches is state of the host process: \<^verbatim>\<open>os.environ\<close>, the file system, the
  environment descriptor \<^verbatim>\<open>venv\<close>, the session's report and the action's activity
  log. The model threads one record of that state through every function.

  A \<^verbatim>\<open>py.path.local\<close> is always absolute: it is the list of its components below
  the root.
\<close>

type_synonym path = "string list"

definition str_path :: "path \<Rightarrow> string" where
  "str_path p = (if p = [] then ''/'' else concat (map (\<lambda>c. CHR ''/'' # c) p))"

definition path_join :: "path \<Rightarrow> string \<Rightarrow> path" where
  "path_join p name = p @ [name]"

definition dirpath :: "path \<Rightarrow> path" where
  "dirpath p = butlast p"

datatype node = File string | Dir

datatype exn =
    InvocationError string
  | KeyboardInterrupt
  | IndexError
  | HostError string

datatype entry = Warning string | Error string

text \<open>One call of \<^verbatim>\<open>venv._pcall\<close>: the argument vector and the keyword arguments the
  plugin passes (\<^verbatim>\<open>venv=False\<close> everywhere, so it is not recorded).\<close>

record call =
  call_args :: "string list"
  call_cwd :: path
  call_redirect :: bool
  call_ignore_ret :: bool

text \<open>The environment descriptor \<^verbatim>\<open>venv\<close> with the parts of \<^verbatim>\<open>venv.envconfig\<close> and
  \<^verbatim>\<open>venv.session.config\<close> that the plugin reads.\<close>

record venv =
  path :: path
  toxinidir :: path
  sitepackages :: bool
  pip_pre :: bool
  ignore_outcome :: bool
  ignore_errors :: bool
  changedir :: path
  commands :: "string list list"
  status :: string
  getsupportedinterpreter :: "exn + string"
  getresolvedeps :: "string list"

record world =
  environ :: "string \<rightharpoonup> string"
  nodes :: "(path \<times> node) list"
  venv :: venv
  sys_executable :: string
  report :: "entry list"
  activity :: "(string \<times> string) list"
  calls :: "call list"
  pcall_environ :: "(string \<rightharpoonup> string) list"

text \<open>The child process is not part of the program. Its outcome is given by a function
  that sees every call made so far and the present one: \<open>Inr\<close> the captured output,
  \<open>Inl\<close> the exception \<^verbatim>\<open>_pcall\<close> raises. The state keeps the calls made, and for each
  of them the process environment in which it was made.\<close>

type_synonym runner = "call list \<Rightarrow> call \<Rightarrow> exn + string"

definition pcall :: "runner \<Rightarrow> call \<Rightarrow> world \<Rightarrow> (exn + string) \<times> world" where
  "pcall run c w =
     (run (calls w) c,
      w\<lparr>calls := calls w @ [c], pcall_environ := pcall_environ w @ [environ w]\<rparr>)"

subsection \<open>Library functions the plugin calls\<close>

text \<open>The file system is a list of entries, each a path with the node found there; the
  first entry for a path is the one in force.\<close>

definition node_at :: "world \<Rightarrow> path \<Rightarrow> node option" where
  "node_at w p = map_of (nodes w) p"

definition write_node :: "path \<Rightarrow> node \<Rightarrow> world \<Rightarrow> world" where
  "write_node p n w = w\<lparr>nodes := (p, n) # nodes w\<rparr>"

definition exists_path :: "path \<Rightarrow> world \<Rightarrow> bool" where
  "exists_path p w = (node_at w p \<noteq> None)"

definition basename :: "path \<Rightarrow> string" where
  "basename p = (if p = [] then [] else last p)"

text \<open>\<^verbatim>\<open>p.ensure(dir=1)\<close>: the directory and its missing ancestors are created.\<close>

definition ensure_dir :: "path \<Rightarrow> world \<Rightarrow> world" where
  "ensure_dir p w =
     w\<lparr>nodes := [(q, Dir). q \<leftarrow> prefixes p, node_at w q = None] @ nodes w\<rparr>"

text \<open>\<^verbatim>\<open>with open(p, "a"): os.utime(p, None)\<close>: an absent file is created empty, a present
  one keeps its content.\<close>

definition touch :: "path \<Rightarrow> world \<Rightarrow> world" where
  "touch p w = (if node_at w p = None then write_node p (File []) w else w)"

text \<open>
  \<^verbatim>\<open>src.copy(dst)\<close>. A file is copied to the target, or into the target when that is a
  directory. Of a directory, the entries below it are copied one by one, each after its
  parent directory has been made at the target, a file with its content and a directory
  by making it; nothing is made for the source directory itself, so the copy of an empty
  directory leaves the target as it was. The entries copied are those present when the
  copy starts.
\<close>

definition copy_entry :: "path \<Rightarrow> path \<Rightarrow> path \<times> node \<Rightarrow> world \<Rightarrow> world" where
  "copy_entry src dst e w =
     (let newx = dst @ drop (length src) (fst e);
          w1 = ensure_dir (dirpath newx) w
      in case snd e of
           File content \<Rightarrow> write_node newx (File content) w1
         | Dir \<Rightarrow> ensure_dir newx w1)"

definition copy_path :: "path \<Rightarrow> path \<Rightarrow> world \<Rightarrow> world" where
  "copy_path src dst w =
     (case node_at w src of
        Some (File content) \<Rightarrow>
          write_node (if node_at w dst = Some Dir then path_join dst (basename src) else dst)
            (File content) w
      | _ \<Rightarrow>
          fold (copy_entry src dst)
            [e \<leftarrow> nodes w. strict_prefix src (fst e) \<and> node_at w (fst e) = Some (snd e)] w)"

text \<open>\<^verbatim>\<open>session.make_emptydir(p)\<close>: an existing tree is removed and the directory made
  again; an absent path is left absent.\<close>

definition make_emptydir :: "path \<Rightarrow> world \<Rightarrow> world" where
  "make_emptydir p w =
     (if exists_path p w
      then ensure_dir p (w\<lparr>nodes := [e \<leftarrow> nodes w. \<not> prefix p (fst e)]\<rparr>)
      else w)"

definition setactivity :: "string \<Rightarrow> string \<Rightarrow> world \<Rightarrow> world" where
  "setactivity name msg w = w\<lparr>activity := activity w @ [(name, msg)]\<rparr>"

definition report_warning :: "string \<Rightarrow> world \<Rightarrow> world" where
  "report_warning msg w = w\<lparr>report := report w @ [Warning msg]\<rparr>"

definition report_error :: "string \<Rightarrow> world \<Rightarrow> world" where
  "report_error msg w = w\<lparr>report := report w @ [Error msg]\<rparr>"

definition set_status :: "string \<Rightarrow> world \<Rightarrow> world" where
  "set_status s w = w\<lparr>venv := (venv w)\<lparr>status := s\<rparr>\<rparr>"

definition set_environ :: "string \<Rightarrow> string \<Rightarrow> world \<Rightarrow> world" where
  "set_environ k v w = w\<lparr>environ := (environ w)(k \<mapsto> v)\<rparr>"

text \<open>Python's \<^verbatim>\<open>sep.join(xs)\<close>, \<^verbatim>\<open>s.split("\n")\<close>, \<^verbatim>\<open>s.startswith("-")\<close>,
  \<^verbatim>\<open>s.lstrip("-")\<close>, \<^verbatim>\<open>str(i)\<close> and \<^verbatim>\<open>"%r"\<close> of an optional string (quotes inside
  the string are not escaped).\<close>

fun str_join :: "string \<Rightarrow> string list \<Rightarrow> string" where
  "str_join sep [] = []"
| "str_join sep [x] = x"
| "str_join sep (x # y # ys) = x @ sep @ str_join sep (y # ys)"

definition newline :: char where
  "newline = CHR 0x0A"

fun split_lines :: "string \<Rightarrow> string list" where
  "split_lines [] = [[]]"
| "split_lines (c # cs) =
     (if c = newline then [] # split_lines cs
      else (c # hd (split_lines cs)) # tl (split_lines cs))"

definition startswith_dash :: "string \<Rightarrow> bool" where
  "startswith_dash s = (case s of [] \<Rightarrow> False | c # _ \<Rightarrow> c = CHR ''-'')"

definition lstrip_dash :: "string \<Rightarrow> string" where
  "lstrip_dash s = dropWhile (\<lambda>c. c = CHR ''-'') s"

definition digit :: "nat \<Rightarrow> char" where
  "digit d = char_of (48 + d)"

fun str_nat :: "nat \<Rightarrow> string" where
  "str_nat n = (if n < 10 then [digit n] else str_nat (n div 10) @ [digit (n mod 10)])"

definition repr :: "string option \<Rightarrow> string" where
  "repr v = (case v of None \<Rightarrow> ''None'' | Some s \<Rightarrow> [CHR 0x27] @ s @ [CHR 0x27])"

section \<open>The plugin\<close>

subsection \<open>\<^verbatim>\<open>_init_pipenv_environ\<close>\<close>

definition init_pipenv_environ :: "world \<Rightarrow> world" where
  "init_pipenv_environ w =
     set_environ ''PIPENV_YES'' ''1''
       (set_environ ''PIPENV_IGNORE_VIRTUALENVS'' ''1''
         (set_environ ''PIPENV_ACTIVE'' ''1'' w))"

subsection \<open>\<^verbatim>\<open>_clone_pipfile\<close>\<close>

definition clone_pipfile :: "world \<Rightarrow> path \<times> world" where
  "clone_pipfile w =
     (let root_pipfile_path = path_join (toxinidir (venv w)) ''Pipfile'';
          w1 = ensure_dir (path (venv w)) w;
          venv_pipfile_path = path_join (path (venv w)) ''Pipfile'';
          w2 = (if \<not> exists_path root_pipfile_path w1 then touch root_pipfile_path w1 else w1);
          w3 = (if \<not> exists_path venv_pipfile_path w2
                then copy_path root_pipfile_path venv_pipfile_path w2 else w2)
      in (venv_pipfile_path, w3))"

subsection \<open>\<^verbatim>\<open>wrap_pipenv_environment\<close>\<close>

text \<open>
  The context manager is a generator with one \<^verbatim>\<open>yield\<close> and no \<^verbatim>\<open>try\<close>: when the
  body of the \<^verbatim>\<open>with\<close> statement raises, the exception is thrown into the generator
  at the \<^verbatim>\<open>yield\<close> and leaves it there, so the statements after the \<^verbatim>\<open>yield\<close> run
  only when the body ends normally. \<^verbatim>\<open>if old:\<close> is true for a string that is present
  and not empty.
\<close>

definition truthy :: "string option \<Rightarrow> bool" where
  "truthy v = (case v of None \<Rightarrow> False | Some s \<Rightarrow> s \<noteq> [])"

definition restore_environ :: "string \<Rightarrow> string option \<Rightarrow> world \<Rightarrow> world" where
  "restore_environ k old w = (if truthy old then set_environ k (the old) w else w)"

definition wrap_pipenv_environment ::
  "path \<Rightarrow> (world \<Rightarrow> (exn + 'a) \<times> world) \<Rightarrow> world \<Rightarrow> (exn + 'a) \<times> world" where
  "wrap_pipenv_environment pipfile_path body w =
     (let old_pipfile = environ w ''PIPENV_PIPFILE'';
          old_pipvenv = environ w ''PIPENV_VIRTUALENV'';
          old_venv = environ w ''VIRTUAL_ENV'';
          w1 = set_environ ''PIPENV_PIPFILE'' (str_path pipfile_path) w;
          w2 = set_environ ''PIPENV_VIRTUALENV'' (str_path (path (venv w1))) w1;
          w3 = set_environ ''VIRTUAL_ENV'' (str_path (path (venv w2))) w2
      in case body w3 of
           (Inl e, w4) \<Rightarrow> (Inl e, w4)
         | (Inr v, w4) \<Rightarrow>
             (Inr v,
              restore_environ ''VIRTUAL_ENV'' old_venv
                (restore_environ ''PIPENV_VIRTUALENV'' old_pipvenv
                  (restore_environ ''PIPENV_PIPFILE'' old_pipfile w4))))"

subsection \<open>\<^verbatim>\<open>tox_testenv_create\<close>\<close>

definition tox_testenv_create :: "runner \<Rightarrow> world \<Rightarrow> (exn + bool) \<times> world" where
  "tox_testenv_create run w =
     (let w1 = init_pipenv_environ w in
      case getsupportedinterpreter (venv w1) of
        Inl e \<Rightarrow> (Inl e, w1)
      | Inr config_interpreter \<Rightarrow>
          (let args0 = [sys_executable w1, ''-m'', ''pipenv''];
               args1 = (if sitepackages (venv w1) then args0 @ [''--site-packages''] else args0);
               args = args1 @ [''--python'', config_interpreter];
               w2 = make_emptydir (path (venv w1)) w1;
               basepath = dirpath (path (venv w2));
               w3 = ensure_dir basepath w2;
               (pipfile_path, w4) = clone_pipfile w3
           in case wrap_pipenv_environment pipfile_path
                     (pcall run \<lparr>call_args = args, call_cwd = basepath,
                                 call_redirect = True, call_ignore_ret = False\<rparr>) w4 of
                (Inl e, w5) \<Rightarrow> (Inl e, w5)
              | (Inr _, w5) \<Rightarrow> (Inr True, w5)))"

subsection \<open>\<^verbatim>\<open>tox_testenv_install_deps\<close>\<close>

definition tox_testenv_install_deps :: "runner \<Rightarrow> world \<Rightarrow> (exn + bool) \<times> world" where
  "tox_testenv_install_deps run w =
     (let w1 = init_pipenv_environ w;
          deps = getresolvedeps (venv w1);
          basepath = dirpath (path (venv w1));
          w2 = ensure_dir basepath w1;
          (pipfile_path, w3) = clone_pipfile w2;
          args0 = [sys_executable w3, ''-m'', ''pipenv'', ''install'', ''--dev''];
          args1 = (if pip_pre (venv w3) then args0 @ [''--pre''] else args0)
      in case wrap_pipenv_environment pipfile_path
                (\<lambda>w4. let (args, w5) =
                             (if deps \<noteq> []
                              then (args1 @ deps, setactivity ''installdeps'' (str_join '','' deps) w4)
                              else (args1, setactivity ''installdeps'' ''[]'' w4))
                       in pcall run \<lparr>call_args = args, call_cwd = basepath,
                                      call_redirect = True, call_ignore_ret = False\<rparr> w5) w3 of
           (Inl e, w6) \<Rightarrow> (Inl e, w6)
         | (Inr _, w6) \<Rightarrow> (Inr True, w6))"

subsection \<open>\<^verbatim>\<open>tox_runtest\<close>\<close>

text \<open>
  \<^verbatim>\<open>argv\<close> is the list object stored at \<^verbatim>\<open>venv.envconfig.commands[i]\<close>, so
  \<^verbatim>\<open>del argv[0]\<close> and \<^verbatim>\<open>argv[0] = ...\<close> write to the descriptor.
\<close>

definition alter_argv :: "nat \<Rightarrow> string list \<Rightarrow> world \<Rightarrow> world" where
  "alter_argv i argv w = w\<lparr>venv := (venv w)\<lparr>commands := (commands (venv w))[i := argv]\<rparr>\<rparr>"

definition warning_text :: "string \<Rightarrow> string" where
  "warning_text err =
     ''command failed but result from testenv is ignored'' @ [newline] @ ''  cmd: '' @ err"

text \<open>
  One iteration of the loop over \<^verbatim>\<open>enumerate(venv.envconfig.commands)\<close>, for the
  command \<open>argv\<close> at index \<open>i\<close>. It ends by going on to the next command (also by
  \<^verbatim>\<open>continue\<close>), by \<^verbatim>\<open>break\<close>, or by an exception that leaves the loop.
\<close>

datatype flow = Next | Break | Raise exn

definition handle_outcome :: "exn + string \<Rightarrow> world \<Rightarrow> flow \<times> world" where
  "handle_outcome r w =
     (case r of
        Inr out \<Rightarrow> (Next, w)
      | Inl (InvocationError err) \<Rightarrow>
          (if ignore_outcome (venv w)
           then (Next, set_status ''ignored failed command''
                         (report_warning (warning_text err) w))
           else (let w1 = set_status ''commands failed'' (report_error err w)
                 in if \<not> ignore_errors (venv w1) then (Break, w1) else (Next, w1)))
      | Inl KeyboardInterrupt \<Rightarrow>
          (let w1 = set_status ''keyboardinterrupt'' w
           in (Raise KeyboardInterrupt, report_error (status (venv w1)) w1))
      | Inl e \<Rightarrow> (Raise e, w))"

definition run_command ::
  "runner \<Rightarrow> bool \<Rightarrow> nat \<Rightarrow> string list \<Rightarrow> world \<Rightarrow> flow \<times> world" where
  "run_command run redirect i argv w =
     (let cwd = changedir (venv w);
          msg = ''commands['' @ str_nat i @ ''] | '' @ str_join '' '' argv;
          w1 = setactivity ''runtests'' msg w
      in case argv of
           [] \<Rightarrow> (Raise IndexError, w1)
         | tok # toks \<Rightarrow>
             (let (ignore_ret, argv', w2) =
                    (if startswith_dash tok
                     then (if tok = ''-''
                           then (True, toks, alter_argv i toks w1)
                           else (True, lstrip_dash tok # toks,
                                 alter_argv i (lstrip_dash tok # toks) w1))
                     else (False, argv, w1));
                  args = [sys_executable w2, ''-m'', ''pipenv'', ''run''] @ argv';
                  (r, w3) = pcall run \<lparr>call_args = args, call_cwd = cwd,
                                        call_redirect = redirect,
                                        call_ignore_ret = ignore_ret\<rparr> w2
              in handle_outcome r w3))"

text \<open>
  The loop. Iteration \<open>i\<close> writes only to the command at index \<open>i\<close> and never changes the
  length of the list, so the commands still to come are the ones the list held when the
  loop began. \<open>Inr ()\<close> is the end of the loop, by exhaustion or by \<^verbatim>\<open>break\<close>.
\<close>

fun run_commands ::
  "runner \<Rightarrow> bool \<Rightarrow> nat \<Rightarrow> string list list \<Rightarrow> world \<Rightarrow> (exn + unit) \<times> world" where
  "run_commands run redirect i [] w = (Inr (), w)"
| "run_commands run redirect i (argv # rest) w =
     (case run_command run redirect i argv w of
        (Next, w1) \<Rightarrow> run_commands run redirect (Suc i) rest w1
      | (Break, w1) \<Rightarrow> (Inr (), w1)
      | (Raise e, w1) \<Rightarrow> (Inl e, w1))"

definition tox_runtest :: "runner \<Rightarrow> bool \<Rightarrow> world \<Rightarrow> (exn + bool) \<times> world" where
  "tox_runtest run redirect w =
     (let w1 = init_pipenv_environ w;
          (pipfile_path, w2) = clone_pipfile w1
      in case wrap_pipenv_environment pipfile_path
                (\<lambda>w3. run_commands run redirect 0 (commands (venv w3))
                         (setactivity ''runtests''
                            (''PYTHONHASHSEED='' @ repr (environ w3 ''PYTHONHASHSEED'')) w3)) w2 of
           (Inl e, w4) \<Rightarrow> (Inl e, w4)
         | (Inr _, w4) \<Rightarrow> (Inr True, w4))"

subsection \<open>\<^verbatim>\<open>tox_runenvreport\<close>\<close>

definition tox_runenvreport :: "runner \<Rightarrow> world \<Rightarrow> (exn + string list) \<times> world" where
  "tox_runenvreport run w =
     (let w1 = init_pipenv_environ w;
          (pipfile_path, w2) = clone_pipfile w1;
          basepath = dirpath (path (venv w2));
          w3 = ensure_dir basepath w2
      in wrap_pipenv_environment pipfile_path
           (\<lambda>w4. case pcall run \<lparr>call_args = [sys_executable w4, ''-m'', ''pipenv'', ''graph''],
                                  call_cwd = basepath,
                                  call_redirect = True, call_ignore_ret = False\<rparr>
                         (setactivity ''runenvreport'' [] w4) of
                    (Inl e, w5) \<Rightarrow> (Inl e, w5)
                  | (Inr output, w5) \<Rightarrow> (Inr (split_lines output), w5)) w3)"

section \<open>Notions used in the statements\<close>

subsection \<open>The overlay\<close>

text \<open>
  The state in which the body of a \<^verbatim>\<open>with wrap_pipenv_environment(...)\<close> statement
  starts, and the value each overridden variable has there.
\<close>

definition overlay :: "path \<Rightarrow> world \<Rightarrow> world" where
  "overlay pipfile_path w =
     set_environ ''VIRTUAL_ENV'' (str_path (path (venv w)))
       (set_environ ''PIPENV_VIRTUALENV'' (str_path (path (venv w)))
         (set_environ ''PIPENV_PIPFILE'' (str_path pipfile_path) w))"

definition override_value :: "path \<Rightarrow> world \<Rightarrow> string \<Rightarrow> string" where
  "override_value pipfile_path w k =
     (if k = ''PIPENV_PIPFILE'' then str_path pipfile_path else str_path (path (venv w)))"

subsection \<open>The calls of \<^verbatim>\<open>_pcall\<close>\<close>

text \<open>
  The calls that \<^verbatim>\<open>tox_testenv_create\<close>, \<^verbatim>\<open>tox_testenv_install_deps\<close> and
  \<^verbatim>\<open>tox_runenvreport\<close> make, and the text \<^verbatim>\<open>tox_testenv_install_deps\<close> logs to the
  action.
\<close>

definition create_call :: "world \<Rightarrow> string \<Rightarrow> call" where
  "create_call w config_interpreter =
     \<lparr>call_args = [sys_executable w, ''-m'', ''pipenv'']
                    @ (if sitepackages (venv w) then [''--site-packages''] else [])
                    @ [''--python'', config_interpreter],
      call_cwd = dirpath (path (venv w)), call_redirect = True, call_ignore_ret = False\<rparr>"

definition install_call :: "world \<Rightarrow> call" where
  "install_call w =
     \<lparr>call_args = [sys_executable w, ''-m'', ''pipenv'', ''install'', ''--dev'']
                    @ (if pip_pre (venv w) then [''--pre''] else [])
                    @ getresolvedeps (venv w),
      call_cwd = dirpath (path (venv w)), call_redirect = True, call_ignore_ret = False\<rparr>"

definition install_activity :: "world \<Rightarrow> string" where
  "install_activity w =
     (if getresolvedeps (venv w) \<noteq> [] then str_join '','' (getresolvedeps (venv w)) else ''[]'')"

definition graph_call :: "world \<Rightarrow> call" where
  "graph_call w =
     \<lparr>call_args = [sys_executable w, ''-m'', ''pipenv'', ''graph''],
      call_cwd = dirpath (path (venv w)), call_redirect = True, call_ignore_ret = False\<rparr>"

text \<open>
  For the command \<open>argv\<close> at index \<open>i\<close> of the loop in \<^verbatim>\<open>tox_runtest\<close>: whether its
  return code is ignored, the tokens left after the dash has been dealt with, the call
  of \<^verbatim>\<open>_pcall\<close> made for it, the text logged to the action and the state in which
  \<^verbatim>\<open>_pcall\<close> is called.
\<close>

definition ignore_ret_of :: "string list \<Rightarrow> bool" where
  "ignore_ret_of argv = (case argv of [] \<Rightarrow> False | tok # toks \<Rightarrow> startswith_dash tok)"

definition altered :: "string list \<Rightarrow> string list" where
  "altered argv =
     (case argv of
        [] \<Rightarrow> []
      | tok # toks \<Rightarrow>
          if startswith_dash tok
          then (if tok = ''-'' then toks else lstrip_dash tok # toks)
          else tok # toks)"

definition invocation :: "world \<Rightarrow> bool \<Rightarrow> string list \<Rightarrow> call" where
  "invocation w redirect argv =
     \<lparr>call_args = [sys_executable w, ''-m'', ''pipenv'', ''run''] @ altered argv,
      call_cwd = changedir (venv w), call_redirect = redirect,
      call_ignore_ret = ignore_ret_of argv\<rparr>"

definition activity_text :: "nat \<Rightarrow> string list \<Rightarrow> string" where
  "activity_text i argv = ''commands['' @ str_nat i @ ''] | '' @ str_join '' '' argv"

definition at_call :: "nat \<Rightarrow> string list \<Rightarrow> world \<Rightarrow> world" where
  "at_call i argv w =
     (if ignore_ret_of argv
      then alter_argv i (altered argv) (setactivity ''runtests'' (activity_text i argv) w)
      else setactivity ''runtests'' (activity_text i argv) w)"

subsection \<open>The loop of \<^verbatim>\<open>tox_runtest\<close>\<close>

text \<open>
  \<open>loop_start w\<close> is the state in which the loop begins when the hook is called in \<open>w\<close>.
  \<open>outcome run w redirect cmds j\<close> is what \<^verbatim>\<open>_pcall\<close> does for the command at index \<open>j\<close>
  when the commands before it have all been invoked: its result, or the exception it
  raises. After a result the loop goes on to the next command; after an invocation
  error it does so if one of the two flags is set; after anything else it does not.
\<close>

definition loop_start :: "world \<Rightarrow> world" where
  "loop_start w =
     (let w3 = overlay (path_join (path (venv w)) ''Pipfile'')
                 (snd (clone_pipfile (init_pipenv_environ w)))
      in setactivity ''runtests''
           (''PYTHONHASHSEED='' @ repr (environ w3 ''PYTHONHASHSEED'')) w3)"

definition outcome :: "runner \<Rightarrow> world \<Rightarrow> bool \<Rightarrow> string list list \<Rightarrow> nat \<Rightarrow> exn + string" where
  "outcome run w redirect cmds j =
     run (calls w @ map (invocation w redirect) (take j cmds)) (invocation w redirect (cmds ! j))"

definition goes_on :: "world \<Rightarrow> exn + string \<Rightarrow> bool" where
  "goes_on w r =
     (case r of
        Inr out \<Rightarrow> True
      | Inl (InvocationError err) \<Rightarrow> ignore_outcome (venv w) \<or> ignore_errors (venv w)
      | Inl _ \<Rightarrow> False)"

definition returns_or_fails :: "exn + string \<Rightarrow> bool" where
  "returns_or_fails r =
     (case r of Inr out \<Rightarrow> True | Inl (InvocationError err) \<Rightarrow> True | Inl _ \<Rightarrow> False)"

text \<open>
  The status and the report entry that an invocation error leaves.
\<close>

definition failed_status :: "world \<Rightarrow> string" where
  "failed_status w =
     (if ignore_outcome (venv w) then ''ignored failed command'' else ''commands failed'')"

definition failure_entry :: "world \<Rightarrow> string \<Rightarrow> entry" where
  "failure_entry w err =
     (if ignore_outcome (venv w) then Warning (warning_text err) else Error err)"

text \<open>
  What the loop leaves alone. \<open>frame_venv v v'\<close>: the descriptor \<open>v'\<close> is \<open>v\<close> but for
  its status and its stored commands. \<open>frame_loop w w'\<close>: between \<open>w\<close> and \<open>w'\<close> the
  process environment, the file system and the interpreter are the same, the descriptor
  is framed, and calls and report entries have only been added.
\<close>

definition frame_venv :: "venv \<Rightarrow> venv \<Rightarrow> bool" where
  "frame_venv v v' = (v' = v\<lparr>commands := commands v', status := status v'\<rparr>)"

definition frame_loop :: "world \<Rightarrow> world \<Rightarrow> bool" where
  "frame_loop w w' =
     (environ w' = environ w \<and> nodes w' = nodes w \<and> sys_executable w' = sys_executable w \<and>
      frame_venv (venv w) (venv w') \<and> prefix (calls w) (calls w') \<and>
      prefix (report w) (report w'))"

subsection \<open>The manifest and the global flags\<close>

text \<open>
  The paths of the root Pipfile and of the per-environment Pipfile.
\<close>

definition root_pipfile :: "world \<Rightarrow> path" where
  "root_pipfile w = path_join (toxinidir (venv w)) ''Pipfile''"

definition venv_pipfile :: "world \<Rightarrow> path" where
  "venv_pipfile w = path_join (path (venv w)) ''Pipfile''"

text \<open>
  The three flags of \<^verbatim>\<open>_init_pipenv_environ\<close> are set in a process environment, in the
  process environment of a state, and in the process environment of every call of
  \<^verbatim>\<open>_pcall\<close> made between two states.
\<close>

definition pipenv_flags :: "(string \<rightharpoonup> string) \<Rightarrow> bool" where
  "pipenv_flags e =
     (e ''PIPENV_ACTIVE'' = Some ''1'' \<and> e ''PIPENV_IGNORE_VIRTUALENVS'' = Some ''1'' \<and>
      e ''PIPENV_YES'' = Some ''1'')"

definition pipenv_flags_set :: "world \<Rightarrow> bool" where
  "pipenv_flags_set w =
     (environ w ''PIPENV_ACTIVE'' = Some ''1'' \<and>
      environ w ''PIPENV_IGNORE_VIRTUALENVS'' = Some ''1'' \<and>
      environ w ''PIPENV_YES'' = Some ''1'')"

definition made_with_flags :: "world \<Rightarrow> world \<Rightarrow> bool" where
  "made_with_flags w w' =
     (\<forall>e\<in>set (drop (length (pcall_environ w)) (pcall_environ w')). pipenv_flags e)"

subsection \<open>Concrete inputs\<close>

text \<open>
  An environment \<^verbatim>\<open>py\<close> of a project at \<^verbatim>\<open>/proj\<close> with the commands \<^verbatim>\<open>- false\<close> and
  \<^verbatim>\<open>pytest\<close>, in a process with an empty environment and an empty file system; a child
  process that fails, or is interrupted, at its \<open>n\<close>-th call and returns nothing
  otherwise.
\<close>

definition example_venv :: venv where
  "example_venv =
     \<lparr>path = [''proj'', ''.tox'', ''py''], toxinidir = [''proj''], sitepackages = False,
      pip_pre = False, ignore_outcome = False, ignore_errors = False,
      changedir = [''proj''], commands = [[''-'', ''false''], [''pytest'']], status = [],
      getsupportedinterpreter = Inr ''python3'', getresolvedeps = []\<rparr>"

definition example_world :: world where
  "example_world =
     \<lparr>environ = Map.empty, nodes = [], venv = example_venv,
      sys_executable = ''python'', report = [], activity = [], calls = [],
      pcall_environ = []\<rparr>"

definition fails_at :: "nat \<Rightarrow> runner" where
  "fails_at n = (\<lambda>h c. if length h = n then Inl (InvocationError ''boom'') else Inr [])"

definition interrupted_at :: "nat \<Rightarrow> runner" where
  "interrupted_at n = (\<lambda>h c. if length h = n then Inl KeyboardInterrupt else Inr [])"

section \<open>Frame lemmas\<close>

lemma set_environ_fields [simp]:
  "environ (set_environ k v w) = (environ w)(k \<mapsto> v)"
  "nodes (set_environ k v w) = nodes w"
  "venv (set_environ k v w) = venv w"
  "sys_executable (set_environ k v w) = sys_executable w"
  "report (set_environ k v w) = report w"
  "activity (set_environ k v w) = activity w"
  "calls (set_environ k v w) = calls w"
  by (simp_all add: set_environ_def)

lemma ensure_dir_fields [simp]:
  "environ (ensure_dir p w) = environ w"
  "venv (ensure_dir p w) = venv w"
  "sys_executable (ensure_dir p w) = sys_executable w"
  "report (ensure_dir p w) = report w"
  "activity (ensure_dir p w) = activity w"
  "calls (ensure_dir p w) = calls w"
  by (simp_all add: ensure_dir_def)

lemma write_node_fields [simp]:
  "environ (write_node p n w) = environ w"
  "venv (write_node p n w) = venv w"
  "sys_executable (write_node p n w) = sys_executable w"
  "report (write_node p n w) = report w"
  "activity (write_node p n w) = activity w"
  "calls (write_node p n w) = calls w"
  "pcall_environ (write_node p n w) = pcall_environ w"
  by (simp_all add: write_node_def)

lemma ensure_dir_pcall_environ [simp]: "pcall_environ (ensure_dir p w) = pcall_environ w"
  by (simp add: ensure_dir_def)

lemma touch_fields [simp]:
  "environ (touch p w) = environ w"
  "venv (touch p w) = venv w"
  "sys_executable (touch p w) = sys_executable w"
  "report (touch p w) = report w"
  "activity (touch p w) = activity w"
  "calls (touch p w) = calls w"
  by (simp_all add: touch_def)

lemma copy_entry_fields [simp]:
  "environ (copy_entry src dst e w) = environ w"
  "venv (copy_entry src dst e w) = venv w"
  "sys_executable (copy_entry src dst e w) = sys_executable w"
  "report (copy_entry src dst e w) = report w"
  "activity (copy_entry src dst e w) = activity w"
  "calls (copy_entry src dst e w) = calls w"
  "pcall_environ (copy_entry src dst e w) = pcall_environ w"
  by (cases "snd e"; simp add: copy_entry_def Let_def)+

lemma fold_copy_entry_fields [simp]:
  "environ (fold (copy_entry src dst) es w) = environ w"
  "venv (fold (copy_entry src dst) es w) = venv w"
  "sys_executable (fold (copy_entry src dst) es w) = sys_executable w"
  "report (fold (copy_entry src dst) es w) = report w"
  "activity (fold (copy_entry src dst) es w) = activity w"
  "calls (fold (copy_entry src dst) es w) = calls w"
  "pcall_environ (fold (copy_entry src dst) es w) = pcall_environ w"
  by (induction es arbitrary: w; simp)+

lemma copy_path_cases:
  "(\<exists>content. node_at w src = Some (File content) \<and>
      copy_path src dst w =
        write_node (if node_at w dst = Some Dir then path_join dst (basename src) else dst)
          (File content) w)
   \<or> ((\<forall>content. node_at w src \<noteq> Some (File content)) \<and>
      copy_path src dst w =
        fold (copy_entry src dst)
          [e \<leftarrow> nodes w. strict_prefix src (fst e) \<and> node_at w (fst e) = Some (snd e)] w)"
proof (cases "node_at w src")
  case None
  then show ?thesis by (simp add: copy_path_def)
next
  case (Some n)
  then show ?thesis by (cases n) (simp_all add: copy_path_def)
qed

lemma copy_path_fields [simp]:
  "environ (copy_path p q w) = environ w"
  "venv (copy_path p q w) = venv w"
  "sys_executable (copy_path p q w) = sys_executable w"
  "report (copy_path p q w) = report w"
  "activity (copy_path p q w) = activity w"
  "calls (copy_path p q w) = calls w"
  "pcall_environ (copy_path p q w) = pcall_environ w"
  using copy_path_cases[of w p q] by auto

lemma make_emptydir_fields [simp]:
  "environ (make_emptydir p w) = environ w"
  "venv (make_emptydir p w) = venv w"
  "sys_executable (make_emptydir p w) = sys_executable w"
  "report (make_emptydir p w) = report w"
  "activity (make_emptydir p w) = activity w"
  "calls (make_emptydir p w) = calls w"
  by (simp_all add: make_emptydir_def)

lemma setactivity_fields [simp]:
  "environ (setactivity n m w) = environ w"
  "nodes (setactivity n m w) = nodes w"
  "venv (setactivity n m w) = venv w"
  "sys_executable (setactivity n m w) = sys_executable w"
  "report (setactivity n m w) = report w"
  "activity (setactivity n m w) = activity w @ [(n, m)]"
  "calls (setactivity n m w) = calls w"
  by (simp_all add: setactivity_def)

lemma report_warning_fields [simp]:
  "environ (report_warning m w) = environ w"
  "nodes (report_warning m w) = nodes w"
  "venv (report_warning m w) = venv w"
  "sys_executable (report_warning m w) = sys_executable w"
  "report (report_warning m w) = report w @ [Warning m]"
  "activity (report_warning m w) = activity w"
  "calls (report_warning m w) = calls w"
  by (simp_all add: report_warning_def)

lemma report_error_fields [simp]:
  "environ (report_error m w) = environ w"
  "nodes (report_error m w) = nodes w"
  "venv (report_error m w) = venv w"
  "sys_executable (report_error m w) = sys_executable w"
  "report (report_error m w) = report w @ [Error m]"
  "activity (report_error m w) = activity w"
  "calls (report_error m w) = calls w"
  by (simp_all add: report_error_def)

lemma set_status_fields [simp]:
  "environ (set_status s w) = environ w"
  "nodes (set_status s w) = nodes w"
  "venv (set_status s w) = (venv w)\<lparr>status := s\<rparr>"
  "sys_executable (set_status s w) = sys_executable w"
  "report (set_status s w) = report w"
  "activity (set_status s w) = activity w"
  "calls (set_status s w) = calls w"
  by (simp_all add: set_status_def)

lemma alter_argv_fields [simp]:
  "environ (alter_argv i a w) = environ w"
  "nodes (alter_argv i a w) = nodes w"
  "venv (alter_argv i a w) = (venv w)\<lparr>commands := (commands (venv w))[i := a]\<rparr>"
  "sys_executable (alter_argv i a w) = sys_executable w"
  "report (alter_argv i a w) = report w"
  "activity (alter_argv i a w) = activity w"
  "calls (alter_argv i a w) = calls w"
  by (simp_all add: alter_argv_def)

lemma pcall_fields [simp]:
  "fst (pcall run c w) = run (calls w) c"
  "environ (snd (pcall run c w)) = environ w"
  "nodes (snd (pcall run c w)) = nodes w"
  "venv (snd (pcall run c w)) = venv w"
  "sys_executable (snd (pcall run c w)) = sys_executable w"
  "report (snd (pcall run c w)) = report w"
  "activity (snd (pcall run c w)) = activity w"
  "calls (snd (pcall run c w)) = calls w @ [c]"
  by (simp_all add: pcall_def)

lemma init_pipenv_environ_fields [simp]:
  "nodes (init_pipenv_environ w) = nodes w"
  "venv (init_pipenv_environ w) = venv w"
  "sys_executable (init_pipenv_environ w) = sys_executable w"
  "report (init_pipenv_environ w) = report w"
  "activity (init_pipenv_environ w) = activity w"
  "calls (init_pipenv_environ w) = calls w"
  by (simp_all add: init_pipenv_environ_def)

lemma clone_pipfile_fields [simp]:
  "fst (clone_pipfile w) = path_join (path (venv w)) ''Pipfile''"
  "environ (snd (clone_pipfile w)) = environ w"
  "venv (snd (clone_pipfile w)) = venv w"
  "sys_executable (snd (clone_pipfile w)) = sys_executable w"
  "report (snd (clone_pipfile w)) = report w"
  "activity (snd (clone_pipfile w)) = activity w"
  "calls (snd (clone_pipfile w)) = calls w"
  by (simp_all add: clone_pipfile_def Let_def)

lemma str_path_not_empty: "str_path p \<noteq> []"
  by (cases p) (simp_all add: str_path_def)

lemma restore_environ_fields [simp]:
  "nodes (restore_environ k old w) = nodes w"
  "venv (restore_environ k old w) = venv w"
  "sys_executable (restore_environ k old w) = sys_executable w"
  "report (restore_environ k old w) = report w"
  "activity (restore_environ k old w) = activity w"
  "calls (restore_environ k old w) = calls w"
  by (simp_all add: restore_environ_def)

lemma restore_environ_environ:
  "environ (restore_environ k old w) = (if truthy old then (environ w)(k \<mapsto> the old) else environ w)"
  by (simp add: restore_environ_def)

lemma overlay_fields [simp]:
  "nodes (overlay pp w) = nodes w"
  "venv (overlay pp w) = venv w"
  "sys_executable (overlay pp w) = sys_executable w"
  "report (overlay pp w) = report w"
  "activity (overlay pp w) = activity w"
  "calls (overlay pp w) = calls w"
  by (simp_all add: overlay_def)

lemma overlay_environ:
  "environ (overlay pp w) =
     (environ w)(''PIPENV_PIPFILE'' \<mapsto> str_path pp,
                 ''PIPENV_VIRTUALENV'' \<mapsto> str_path (path (venv w)),
                 ''VIRTUAL_ENV'' \<mapsto> str_path (path (venv w)))"
  by (simp add: overlay_def)

lemma wrap_unfold:
  "wrap_pipenv_environment pp body w =
     (case body (overlay pp w) of
        (Inl e, w4) \<Rightarrow> (Inl e, w4)
      | (Inr v, w4) \<Rightarrow>
          (Inr v,
           restore_environ ''VIRTUAL_ENV'' (environ w ''VIRTUAL_ENV'')
             (restore_environ ''PIPENV_VIRTUALENV'' (environ w ''PIPENV_VIRTUALENV'')
               (restore_environ ''PIPENV_PIPFILE'' (environ w ''PIPENV_PIPFILE'') w4))))"
  by (simp add: wrap_pipenv_environment_def overlay_def Let_def)

lemma wrap_fields [simp]:
  "nodes (snd (wrap_pipenv_environment pp body w)) = nodes (snd (body (overlay pp w)))"
  "venv (snd (wrap_pipenv_environment pp body w)) = venv (snd (body (overlay pp w)))"
  "sys_executable (snd (wrap_pipenv_environment pp body w)) = sys_executable (snd (body (overlay pp w)))"
  "report (snd (wrap_pipenv_environment pp body w)) = report (snd (body (overlay pp w)))"
  "activity (snd (wrap_pipenv_environment pp body w)) = activity (snd (body (overlay pp w)))"
  "calls (snd (wrap_pipenv_environment pp body w)) = calls (snd (body (overlay pp w)))"
  "fst (wrap_pipenv_environment pp body w) = fst (body (overlay pp w))"
  by (simp_all add: wrap_unfold split: prod.splits sum.splits)

lemma wrap_environ_other:
  assumes "k \<noteq> ''PIPENV_PIPFILE''" "k \<noteq> ''PIPENV_VIRTUALENV''" "k \<noteq> ''VIRTUAL_ENV''"
    and "\<And>u. environ (snd (body u)) k = environ u k"
  shows "environ (snd (wrap_pipenv_environment pp body w)) k = environ w k"
proof -
  obtain r w4 where b: "body (overlay pp w) = (r, w4)"
    by (cases "body (overlay pp w)")
  have "environ w4 k = environ (overlay pp w) k"
    using assms(4)[of "overlay pp w"] b by simp
  then have e4: "environ w4 k = environ w k"
    using assms(1-3) by (simp add: overlay_environ)
  show ?thesis
    using b e4 assms(1-3)
    by (cases r) (simp_all add: wrap_unfold restore_environ_environ)
qed

lemma wrap_restored:
  assumes "body (overlay pp w) = (Inr v, w4)"
  shows "environ (snd (wrap_pipenv_environment pp body w)) ''PIPENV_PIPFILE'' =
           (if truthy (environ w ''PIPENV_PIPFILE'') then environ w ''PIPENV_PIPFILE''
            else environ w4 ''PIPENV_PIPFILE'')"
    and "environ (snd (wrap_pipenv_environment pp body w)) ''PIPENV_VIRTUALENV'' =
           (if truthy (environ w ''PIPENV_VIRTUALENV'') then environ w ''PIPENV_VIRTUALENV''
            else environ w4 ''PIPENV_VIRTUALENV'')"
    and "environ (snd (wrap_pipenv_environment pp body w)) ''VIRTUAL_ENV'' =
           (if truthy (environ w ''VIRTUAL_ENV'') then environ w ''VIRTUAL_ENV''
            else environ w4 ''VIRTUAL_ENV'')"
  using assms
  by (simp_all add: wrap_unfold restore_environ_environ truthy_def split: option.splits)

lemma wrap_restored_key:
  assumes "body (overlay pp w) = (Inr v, w4)"
    and "k \<in> {''PIPENV_PIPFILE'', ''PIPENV_VIRTUALENV'', ''VIRTUAL_ENV''}"
  shows "environ (snd (wrap_pipenv_environment pp body w)) k =
           (if truthy (environ w k) then environ w k else environ w4 k)"
proof -
  consider "k = ''PIPENV_PIPFILE''" | "k = ''PIPENV_VIRTUALENV''" | "k = ''VIRTUAL_ENV''"
    using assms(2) by blast
  then show ?thesis
  proof cases
    case 1
    then show ?thesis using wrap_restored(1)[where body=body and pp=pp and w=w, OF assms(1)] by simp
  next
    case 2
    then show ?thesis using wrap_restored(2)[where body=body and pp=pp and w=w, OF assms(1)] by simp
  next
    case 3
    then show ?thesis using wrap_restored(3)[where body=body and pp=pp and w=w, OF assms(1)] by simp
  qed
qed

lemma overlay_environ_key:
  assumes "k \<in> {''PIPENV_PIPFILE'', ''PIPENV_VIRTUALENV'', ''VIRTUAL_ENV''}"
  shows "environ (overlay pp w) k = Some (override_value pp w k)"
proof -
  consider "k = ''PIPENV_PIPFILE''" | "k = ''PIPENV_VIRTUALENV''" | "k = ''VIRTUAL_ENV''"
    using assms by blast
  then show ?thesis
    by cases (simp_all add: overlay_environ override_value_def)
qed

lemma wrap_normal_exit:
  assumes "wrap_pipenv_environment pp body w = (Inr v, w')"
  obtains w4 where "body (overlay pp w) = (Inr v, w4)"
proof -
  obtain r w4 where b: "body (overlay pp w) = (r, w4)"
    by (cases "body (overlay pp w)")
  with assms have "r = Inr v"
    by (cases r) (simp_all add: wrap_unfold)
  with b that show thesis by simp
qed

section \<open>The environment-variable overlay\<close>

text \<open>
  Claim C1, as amended. When an overlay scope opened by \<^verbatim>\<open>wrap_pipenv_environment\<close> exits
  normally, each of \<^verbatim>\<open>PIPENV_PIPFILE\<close>, \<^verbatim>\<open>PIPENV_VIRTUALENV\<close> and \<^verbatim>\<open>VIRTUAL_ENV\<close> that
  held a non-empty value before the scope holds that value again afterwards, whatever
  the body did to the variable.
\<close>

theorem overlay_restores_nonempty_on_normal_exit:
  assumes "wrap_pipenv_environment pp body w = (Inr v, w')"
    and "k \<in> {''PIPENV_PIPFILE'', ''PIPENV_VIRTUALENV'', ''VIRTUAL_ENV''}"
    and "environ w k = Some old" and "old \<noteq> []"
  shows "environ w' k = Some old"
proof -
  obtain w4 where b: "body (overlay pp w) = (Inr v, w4)"
    using assms(1) by (rule wrap_normal_exit)
  have "truthy (environ w k)"
    using assms(3,4) by (simp add: truthy_def)
  then have "environ (snd (wrap_pipenv_environment pp body w)) k = environ w k"
    using wrap_restored_key[where body=body and pp=pp and w=w, OF b assms(2)] by simp
  then show ?thesis using assms(1,3) by simp
qed

text \<open>
  Claim C10. When an overlay scope exits normally and one of the three overridden
  variables held the empty string before the scope, the variable afterwards holds the
  override value set on entry, which is never the empty string: \<^verbatim>\<open>if old:\<close> does not
  tell an empty prior value from an absent variable. The body is any computation that
  does not itself assign the variable, as is the case for every body in the plugin.
\<close>

theorem overlay_empty_prior_keeps_override:
  assumes "wrap_pipenv_environment pp body w = (Inr v, w')"
    and "k \<in> {''PIPENV_PIPFILE'', ''PIPENV_VIRTUALENV'', ''VIRTUAL_ENV''}"
    and "environ w k = Some []"
    and "\<And>u. environ (snd (body u)) k = environ u k"
  shows "environ w' k = Some (override_value pp w k) \<and> override_value pp w k \<noteq> []"
proof -
  obtain w4 where b: "body (overlay pp w) = (Inr v, w4)"
    using assms(1) by (rule wrap_normal_exit)
  have e4: "environ w4 k = environ (overlay pp w) k"
    using assms(4)[of "overlay pp w"] b by simp
  have "\<not> truthy (environ w k)"
    using assms(3) by (simp add: truthy_def)
  then have "environ (snd (wrap_pipenv_environment pp body w)) k = environ w4 k"
    using wrap_restored_key[where body=body and pp=pp and w=w, OF b assms(2)] by simp
  then have "environ w' k = Some (override_value pp w k)"
    using assms(1) e4 overlay_environ_key[OF assms(2)] by simp
  then show ?thesis
    by (simp add: override_value_def str_path_not_empty)
qed

lemma example_fields [simp]:
  "environ example_world = Map.empty"
  "venv example_world = example_venv"
  "calls example_world = []"
  "sys_executable example_world = ''python''"
  "path example_venv = [''proj'', ''.tox'', ''py'']"
  by (simp_all add: example_world_def example_venv_def)

text \<open>
  Claim C1 as it is stated fails. A variable that was absent before the scope is present
  after a normal exit, and when the wrapped invocation raises out of the scope nothing
  is restored: the statements after the \<^verbatim>\<open>yield\<close> are not run.
\<close>

theorem overlay_not_restored_counterexample:
  "environ (snd (wrap_pipenv_environment [''proj'', ''.tox'', ''py'', ''Pipfile'']
                   (pcall (\<lambda>h c. Inr []) (graph_call example_world))
                   example_world)) ''VIRTUAL_ENV''
     \<noteq> environ example_world ''VIRTUAL_ENV''
   \<and> environ (snd (wrap_pipenv_environment [''proj'', ''.tox'', ''py'', ''Pipfile'']
                   (pcall (\<lambda>h c. Inl (InvocationError ''boom'')) (graph_call example_world))
                   (example_world\<lparr>environ := [''VIRTUAL_ENV'' \<mapsto> ''/old'']\<rparr>))) ''VIRTUAL_ENV''
     \<noteq> environ (example_world\<lparr>environ := [''VIRTUAL_ENV'' \<mapsto> ''/old'']\<rparr>) ''VIRTUAL_ENV''"
  by (simp add: wrap_unfold pcall_def overlay_environ restore_environ_environ truthy_def
        str_path_def)

theorem overlay_restores_nonempty_on_normal_exit_witness:
  "environ (example_world\<lparr>environ := [''VIRTUAL_ENV'' \<mapsto> ''/old'']\<rparr>) ''VIRTUAL_ENV'' = Some ''/old''
   \<and> fst (wrap_pipenv_environment [''proj'', ''.tox'', ''py'', ''Pipfile'']
             (pcall (\<lambda>h c. Inr []) (graph_call example_world))
             (example_world\<lparr>environ := [''VIRTUAL_ENV'' \<mapsto> ''/old'']\<rparr>)) = Inr []
   \<and> environ (snd (wrap_pipenv_environment [''proj'', ''.tox'', ''py'', ''Pipfile'']
                   (pcall (\<lambda>h c. Inr []) (graph_call example_world))
                   (example_world\<lparr>environ := [''VIRTUAL_ENV'' \<mapsto> ''/old'']\<rparr>))) ''VIRTUAL_ENV''
       = Some ''/old''"
proof -
  let ?w = "example_world\<lparr>environ := [''VIRTUAL_ENV'' \<mapsto> ''/old'']\<rparr>"
  let ?r = "wrap_pipenv_environment [''proj'', ''.tox'', ''py'', ''Pipfile'']
              (pcall (\<lambda>h c. Inr []) (graph_call example_world)) ?w"
  have f: "fst ?r = Inr []" by simp
  then have e: "?r = (Inr [], snd ?r)" by (metis prod.collapse)
  have k: "''VIRTUAL_ENV'' \<in> {''PIPENV_PIPFILE'', ''PIPENV_VIRTUALENV'', ''VIRTUAL_ENV''}"
    by simp
  have o: "environ ?w ''VIRTUAL_ENV'' = Some ''/old''" by simp
  have n: "''/old'' \<noteq> []" by simp
  show ?thesis
    using overlay_restores_nonempty_on_normal_exit [OF e k o n] f o by simp
qed

theorem overlay_empty_prior_keeps_override_witness:
  "environ (example_world\<lparr>environ := [''VIRTUAL_ENV'' \<mapsto> []]\<rparr>) ''VIRTUAL_ENV'' = Some []
   \<and> fst (wrap_pipenv_environment [''proj'', ''.tox'', ''py'', ''Pipfile'']
             (pcall (\<lambda>h c. Inr []) (graph_call example_world))
             (example_world\<lparr>environ := [''VIRTUAL_ENV'' \<mapsto> []]\<rparr>)) = Inr []
   \<and> environ (snd (wrap_pipenv_environment [''proj'', ''.tox'', ''py'', ''Pipfile'']
                   (pcall (\<lambda>h c. Inr []) (graph_call example_world))
                   (example_world\<lparr>environ := [''VIRTUAL_ENV'' \<mapsto> []]\<rparr>))) ''VIRTUAL_ENV''
       = Some ''/proj/.tox/py''"
proof -
  let ?w = "example_world\<lparr>environ := [''VIRTUAL_ENV'' \<mapsto> []]\<rparr>"
  let ?body = "pcall (\<lambda>h c. Inr []) (graph_call example_world)"
  let ?r = "wrap_pipenv_environment [''proj'', ''.tox'', ''py'', ''Pipfile''] ?body ?w"
  have f: "fst ?r = Inr []" by simp
  then have e: "?r = (Inr [], snd ?r)" by (metis prod.collapse)
  have k: "''VIRTUAL_ENV'' \<in> {''PIPENV_PIPFILE'', ''PIPENV_VIRTUALENV'', ''VIRTUAL_ENV''}"
    by simp
  have o: "environ ?w ''VIRTUAL_ENV'' = Some []" by simp
  have b: "\<And>u. environ (snd (?body u)) ''VIRTUAL_ENV'' = environ u ''VIRTUAL_ENV''" by simp
  show ?thesis
    using overlay_empty_prior_keeps_override [of _ ?body, OF e k o b] f o
    by (simp add: override_value_def str_path_def)
qed

section \<open>Splitting into lines\<close>

lemma split_lines_not_Nil: "split_lines s \<noteq> []"
  by (induction s) auto

lemma str_join_Cons: "ys \<noteq> [] \<Longrightarrow> str_join sep (x # ys) = x @ sep @ str_join sep ys"
  by (cases ys) auto

lemma str_join_hd_tl:
  "r \<noteq> [] \<Longrightarrow> str_join sep ((c # hd r) # tl r) = c # str_join sep r"
  by (cases r; cases "tl r") auto

lemma join_split_lines: "str_join [newline] (split_lines s) = s"
  by (induction s) (auto simp: str_join_Cons split_lines_not_Nil str_join_hd_tl)

lemma split_lines_no_newline: "l \<in> set (split_lines s) \<Longrightarrow> newline \<notin> set l"
proof (induction s arbitrary: l)
  case Nil
  then show ?case by simp
next
  case (Cons c cs)
  obtain y ys where r: "split_lines cs = y # ys"
    using split_lines_not_Nil by (cases "split_lines cs") auto
  show ?case using Cons r by (auto split: if_splits)
qed

lemma split_lines_trailing_tl: "tl (split_lines (s @ [newline])) \<noteq> []"
  by (induction s) (auto simp: split_lines_not_Nil)

lemma split_lines_trailing: "last (split_lines (s @ [newline])) = []"
  by (induction s) (auto simp: split_lines_not_Nil split_lines_trailing_tl last_tl)

lemma split_lines_line: "newline \<notin> set l \<Longrightarrow> split_lines l = [l]"
  by (induction l) auto

lemma split_lines_append:
  "newline \<notin> set l \<Longrightarrow> split_lines (l @ newline # s) = l # split_lines s"
  by (induction l) auto

lemma split_lines_join:
  "ls \<noteq> [] \<Longrightarrow> \<forall>l\<in>set ls. newline \<notin> set l \<Longrightarrow> split_lines (str_join [newline] ls) = ls"
proof (induction ls)
  case Nil
  then show ?case by simp
next
  case (Cons l ls)
  show ?case
  proof (cases "ls = []")
    case True
    with Cons.prems show ?thesis by (simp add: split_lines_line)
  next
    case False
    with Cons show ?thesis by (simp add: str_join_Cons split_lines_append)
  qed
qed

section \<open>One command of \<^verbatim>\<open>tox_runtest\<close>\<close>

lemma handle_outcome_simps:
  "handle_outcome (Inr out) w = (Next, w)"
  "handle_outcome (Inl (InvocationError err)) w =
     (if ignore_outcome (venv w)
      then (Next, set_status ''ignored failed command'' (report_warning (warning_text err) w))
      else if \<not> ignore_errors (venv w)
           then (Break, set_status ''commands failed'' (report_error err w))
           else (Next, set_status ''commands failed'' (report_error err w)))"
  "handle_outcome (Inl KeyboardInterrupt) w =
     (Raise KeyboardInterrupt,
      report_error ''keyboardinterrupt'' (set_status ''keyboardinterrupt'' w))"
  "handle_outcome (Inl IndexError) w = (Raise IndexError, w)"
  "handle_outcome (Inl (HostError m)) w = (Raise (HostError m), w)"
  by (simp_all add: handle_outcome_def Let_def)

lemma handle_outcome_fields [simp]:
  "environ (snd (handle_outcome r w)) = environ w"
  "nodes (snd (handle_outcome r w)) = nodes w"
  "sys_executable (snd (handle_outcome r w)) = sys_executable w"
  "calls (snd (handle_outcome r w)) = calls w"
  "activity (snd (handle_outcome r w)) = activity w"
proof -
  show "environ (snd (handle_outcome r w)) = environ w"
    by (cases r; cases "projl r") (simp_all add: handle_outcome_simps)
  show "nodes (snd (handle_outcome r w)) = nodes w"
    by (cases r; cases "projl r") (simp_all add: handle_outcome_simps)
  show "sys_executable (snd (handle_outcome r w)) = sys_executable w"
    by (cases r; cases "projl r") (simp_all add: handle_outcome_simps)
  show "calls (snd (handle_outcome r w)) = calls w"
    by (cases r; cases "projl r") (simp_all add: handle_outcome_simps)
  show "activity (snd (handle_outcome r w)) = activity w"
    by (cases r; cases "projl r") (simp_all add: handle_outcome_simps)
qed


lemma startswith_dash_single [simp]: "startswith_dash ''-''"
  by (simp add: startswith_dash_def)

lemma run_command_Nil:
  "run_command run redirect i [] w =
     (Raise IndexError, setactivity ''runtests'' (activity_text i []) w)"
  by (simp add: run_command_def activity_text_def)

lemma run_command_Cons:
  "run_command run redirect i (tok # toks) w =
     handle_outcome (run (calls w) (invocation w redirect (tok # toks)))
       (snd (pcall run (invocation w redirect (tok # toks)) (at_call i (tok # toks) w)))"
proof (cases "startswith_dash tok")
  case False
  then have "tok \<noteq> ''-''" by auto
  with False show ?thesis
    by (simp add: run_command_def Let_def pcall_def invocation_def altered_def
          ignore_ret_of_def at_call_def activity_text_def)
next
  case True
  show ?thesis
  proof (cases "tok = ''-''")
    case True
    then show ?thesis
      by (simp add: run_command_def Let_def pcall_def invocation_def altered_def
            ignore_ret_of_def at_call_def activity_text_def)
  next
    case False
    with \<open>startswith_dash tok\<close> show ?thesis
      by (simp add: run_command_def Let_def pcall_def invocation_def altered_def
            ignore_ret_of_def at_call_def activity_text_def)
  qed
qed

lemma frame_venv_refl [simp]: "frame_venv v v"
  by (simp add: frame_venv_def)

lemma frame_venv_trans: "frame_venv a b \<Longrightarrow> frame_venv b c \<Longrightarrow> frame_venv a c"
  by (cases a; cases b; cases c) (simp add: frame_venv_def)

lemma frame_venv_status [simp]: "frame_venv v (v\<lparr>status := s\<rparr>)"
  by (cases v) (simp add: frame_venv_def)

lemma frame_venv_commands [simp]: "frame_venv v (v\<lparr>commands := c\<rparr>)"
  by (cases v) (simp add: frame_venv_def)

lemma frame_venv_fields:
  assumes "frame_venv v v'"
  shows "path v' = path v" "toxinidir v' = toxinidir v" "sitepackages v' = sitepackages v"
    "pip_pre v' = pip_pre v" "ignore_outcome v' = ignore_outcome v"
    "ignore_errors v' = ignore_errors v" "changedir v' = changedir v"
    "getsupportedinterpreter v' = getsupportedinterpreter v"
    "getresolvedeps v' = getresolvedeps v"
  using assms by (cases v; cases v'; simp add: frame_venv_def)+

lemma at_call_fields [simp]:
  "environ (at_call i argv w) = environ w"
  "nodes (at_call i argv w) = nodes w"
  "sys_executable (at_call i argv w) = sys_executable w"
  "report (at_call i argv w) = report w"
  "calls (at_call i argv w) = calls w"
  "activity (at_call i argv w) = activity w @ [(''runtests'', activity_text i argv)]"
  "status (venv (at_call i argv w)) = status (venv w)"
  "frame_venv (venv w) (venv (at_call i argv w))"
  by (simp_all add: at_call_def)

lemma at_call_commands:
  "commands (venv (at_call i argv w)) =
     (if ignore_ret_of argv then (commands (venv w))[i := altered argv] else commands (venv w))"
  by (simp add: at_call_def)

lemma handle_outcome_frame [simp]: "frame_venv (venv w) (venv (snd (handle_outcome r w)))"
  by (cases r; cases "projl r") (simp_all add: handle_outcome_simps)

lemma handle_outcome_commands [simp]:
  "commands (venv (snd (handle_outcome r w))) = commands (venv w)"
  by (cases r; cases "projl r") (simp_all add: handle_outcome_simps)

lemma run_command_nonempty:
  "argv \<noteq> [] \<Longrightarrow>
     run_command run redirect i argv w =
       handle_outcome (run (calls w) (invocation w redirect argv))
         (snd (pcall run (invocation w redirect argv) (at_call i argv w)))"
  by (cases argv) (simp_all add: run_command_Cons)

lemma goes_on_flow: "goes_on w r \<longleftrightarrow> fst (handle_outcome r w) = Next"
  by (cases r; cases "projl r") (simp_all add: handle_outcome_simps goes_on_def)

lemma goes_on_cong:
  "frame_venv (venv w) (venv w') \<Longrightarrow> goes_on w' r = goes_on w r"
  by (cases r; cases "projl r") (simp_all add: goes_on_def frame_venv_fields)

lemma invocation_cong:
  "frame_venv (venv w) (venv w') \<Longrightarrow> sys_executable w' = sys_executable w \<Longrightarrow>
     invocation w' redirect argv = invocation w redirect argv"
  by (simp add: invocation_def frame_venv_fields)

lemma run_command_calls:
  "calls (snd (run_command run redirect i argv w)) =
     (if argv = [] then calls w else calls w @ [invocation w redirect argv])"
  by (cases argv) (simp_all add: run_command_Nil run_command_Cons)

lemma run_command_frame [simp]:
  "frame_venv (venv w) (venv (snd (run_command run redirect i argv w)))"
proof (cases argv)
  case Nil
  then show ?thesis by (simp add: run_command_Nil)
next
  case (Cons tok toks)
  let ?c = "invocation w redirect argv"
  let ?w1 = "snd (pcall run ?c (at_call i argv w))"
  have "frame_venv (venv w) (venv ?w1)" by simp
  moreover have "frame_venv (venv ?w1) (venv (snd (handle_outcome (run (calls w) ?c) ?w1)))"
    by (rule handle_outcome_frame)
  ultimately show ?thesis
    using Cons by (simp only: run_command_Cons frame_venv_trans)
qed

lemma run_command_fields [simp]:
  "environ (snd (run_command run redirect i argv w)) = environ w"
  "nodes (snd (run_command run redirect i argv w)) = nodes w"
  "sys_executable (snd (run_command run redirect i argv w)) = sys_executable w"
  by (cases argv; simp add: run_command_Nil run_command_Cons)+

lemma run_command_commands:
  "commands (venv (snd (run_command run redirect i argv w))) =
     (if ignore_ret_of argv then (commands (venv w))[i := altered argv] else commands (venv w))"
  by (cases argv) (simp_all add: run_command_Nil run_command_Cons at_call_commands ignore_ret_of_def)

lemma run_command_goes_on:
  assumes "argv \<noteq> []" and "goes_on w (run (calls w) (invocation w redirect argv))"
  shows "fst (run_command run redirect i argv w) = Next"
proof -
  let ?c = "invocation w redirect argv"
  let ?w1 = "snd (pcall run ?c (at_call i argv w))"
  have "frame_venv (venv w) (venv ?w1)" by simp
  then have "goes_on ?w1 (run (calls w) ?c)"
    using assms(2) by (simp only: goes_on_cong)
  then have "fst (handle_outcome (run (calls w) ?c) ?w1) = Next"
    by (simp only: goes_on_flow)
  then show ?thesis
    using run_command_nonempty[OF assms(1), of run redirect i w] by simp
qed

lemma handle_outcome_report [simp]:
  "prefix (report w) (report (snd (handle_outcome r w)))"
  by (cases r; cases "projl r") (simp_all add: handle_outcome_simps)

lemma run_command_report [simp]:
  "prefix (report w) (report (snd (run_command run redirect i argv w)))"
proof (cases argv)
  case Nil
  then show ?thesis by (simp add: run_command_Nil)
next
  case (Cons tok toks)
  let ?c = "invocation w redirect argv"
  let ?w1 = "snd (pcall run ?c (at_call i argv w))"
  have "prefix (report ?w1) (report (snd (handle_outcome (run (calls w) ?c) ?w1)))"
    by (rule handle_outcome_report)
  then show ?thesis
    using Cons by (simp add: run_command_Cons)
qed

section \<open>The loop of \<^verbatim>\<open>tox_runtest\<close>\<close>

lemma run_commands_Cons:
  "run_command run redirect i argv w = (Next, w1) \<Longrightarrow>
     run_commands run redirect i (argv # rest) w = run_commands run redirect (Suc i) rest w1"
  "run_command run redirect i argv w = (Break, w1) \<Longrightarrow>
     run_commands run redirect i (argv # rest) w = (Inr (), w1)"
  "run_command run redirect i argv w = (Raise e, w1) \<Longrightarrow>
     run_commands run redirect i (argv # rest) w = (Inl e, w1)"
  by simp_all

lemma frame_loop_refl [simp]: "frame_loop w w"
  by (simp add: frame_loop_def)

lemma frame_loop_trans: "frame_loop a b \<Longrightarrow> frame_loop b c \<Longrightarrow> frame_loop a c"
  unfolding frame_loop_def
  using frame_venv_trans prefix_order.trans by metis

lemma run_command_frame_loop: "frame_loop w (snd (run_command run redirect i argv w))"
  by (simp add: frame_loop_def run_command_calls)

lemma run_commands_frame_loop: "frame_loop w (snd (run_commands run redirect i cmds w))"
proof (induction cmds arbitrary: i w)
  case Nil
  show ?case by simp
next
  case (Cons argv rest)
  obtain f w1 where s: "run_command run redirect i argv w = (f, w1)"
    by (cases "run_command run redirect i argv w")
  have e: "frame_loop w w1"
    using run_command_frame_loop[of w run redirect i argv] s by simp
  show ?case
  proof (cases f)
    case Next
    with s have "run_commands run redirect i (argv # rest) w
                   = run_commands run redirect (Suc i) rest w1"
      by (simp only: run_commands_Cons(1))
    then show ?thesis
      using Cons.IH[of w1 "Suc i"] e frame_loop_trans by metis
  next
    case Break
    with s have "run_commands run redirect i (argv # rest) w = (Inr (), w1)"
      by (simp only: run_commands_Cons(2))
    then show ?thesis using e by simp
  next
    case (Raise x)
    with s have "run_commands run redirect i (argv # rest) w = (Inl x, w1)"
      by (simp only: run_commands_Cons(3))
    then show ?thesis using e by simp
  qed
qed

lemma invocation_fun_cong:
  "frame_venv (venv w) (venv w') \<Longrightarrow> sys_executable w' = sys_executable w \<Longrightarrow>
     invocation w' redirect = invocation w redirect"
  by (rule ext) (simp add: invocation_cong)

lemma outcome_Suc:
  assumes "frame_venv (venv w) (venv w1)" and "sys_executable w1 = sys_executable w"
    and "calls w1 = calls w @ [invocation w redirect a]"
  shows "outcome run w1 redirect rest j = outcome run w redirect (a # rest) (Suc j)"
  using assms by (simp add: outcome_def invocation_fun_cong)

lemma outcome_0: "outcome run w redirect (a # rest) 0 = run (calls w) (invocation w redirect a)"
  by (simp add: outcome_def)

lemma run_commands_append:
  assumes "\<forall>j<length pre. pre ! j \<noteq> [] \<and> goes_on w (outcome run w redirect pre j)"
  shows "run_commands run redirect i (pre @ rest) w
           = run_commands run redirect (i + length pre) rest
               (snd (run_commands run redirect i pre w))
         \<and> fst (run_commands run redirect i pre w) = Inr ()
         \<and> calls (snd (run_commands run redirect i pre w))
             = calls w @ map (invocation w redirect) pre"
  using assms
proof (induction pre arbitrary: i w)
  case Nil
  show ?case by simp
next
  case (Cons a pre)
  have a: "a \<noteq> []" and g: "goes_on w (run (calls w) (invocation w redirect a))"
    using Cons.prems outcome_0[of run w redirect a pre] by auto
  obtain w1 where s: "run_command run redirect i a w = (Next, w1)"
    using run_command_goes_on[where run=run and w=w and redirect=redirect and argv=a and i=i, OF a g] by (cases "run_command run redirect i a w") simp
  have fr: "frame_venv (venv w) (venv w1)" and se: "sys_executable w1 = sys_executable w"
    using run_command_frame[of w run redirect i a] run_command_fields(3)[of run redirect i a w] s
    by simp_all
  have c1: "calls w1 = calls w @ [invocation w redirect a]"
    using run_command_calls[of run redirect i a w] s a by simp
  have hyp: "\<forall>j<length pre. pre ! j \<noteq> [] \<and> goes_on w1 (outcome run w1 redirect pre j)"
  proof (intro allI impI)
    fix j assume j: "j < length pre"
    then have "(a # pre) ! Suc j \<noteq> [] \<and> goes_on w (outcome run w redirect (a # pre) (Suc j))"
      using Cons.prems by (metis Suc_less_eq length_Cons)
    then show "pre ! j \<noteq> [] \<and> goes_on w1 (outcome run w1 redirect pre j)"
      using outcome_Suc[OF fr se c1] goes_on_cong[OF fr] by simp
  qed
  note ih = Cons.IH[OF hyp, of "Suc i"]
  have u1: "run_commands run redirect i ((a # pre) @ rest) w
              = run_commands run redirect (Suc i) (pre @ rest) w1"
    using s by simp
  have u2: "run_commands run redirect i (a # pre) w = run_commands run redirect (Suc i) pre w1"
    using s by simp
  show ?case
    using ih c1 by (simp only: u1 u2) (simp add: invocation_fun_cong[OF fr se])
qed

lemma failed_status_cong:
  "frame_venv (venv w) (venv w') \<Longrightarrow> failed_status w' = failed_status w"
  by (simp add: failed_status_def frame_venv_fields)

lemma handle_outcome_status_stable:
  "goes_on w r \<Longrightarrow> status (venv w) = failed_status w \<Longrightarrow>
     status (venv (snd (handle_outcome r w))) = failed_status w"
  by (cases r; cases "projl r")
     (simp_all add: handle_outcome_simps goes_on_def failed_status_def)

lemma run_command_status_stable:
  assumes "argv \<noteq> []" and "goes_on w (run (calls w) (invocation w redirect argv))"
    and "status (venv w) = failed_status w"
  shows "status (venv (snd (run_command run redirect i argv w))) = failed_status w"
proof -
  let ?c = "invocation w redirect argv"
  let ?w1 = "snd (pcall run ?c (at_call i argv w))"
  have fr: "frame_venv (venv w) (venv ?w1)" by simp
  have "goes_on ?w1 (run (calls w) ?c)"
    using assms(2) by (simp only: goes_on_cong[OF fr])
  moreover have "status (venv ?w1) = failed_status ?w1"
    using assms(3) by (simp add: failed_status_cong[OF fr])
  ultimately have "status (venv (snd (handle_outcome (run (calls w) ?c) ?w1))) = failed_status ?w1"
    by (rule handle_outcome_status_stable)
  then show ?thesis
    using run_command_nonempty[OF assms(1), of run redirect i w] failed_status_cong[OF fr]
    by simp
qed

lemma run_commands_status_stable:
  assumes "\<forall>j<length cmds. cmds ! j \<noteq> [] \<and> goes_on w (outcome run w redirect cmds j)"
    and "status (venv w) = failed_status w"
  shows "status (venv (snd (run_commands run redirect i cmds w))) = failed_status w"
  using assms
proof (induction cmds arbitrary: i w)
  case Nil
  then show ?case by simp
next
  case (Cons a cmds)
  have a: "a \<noteq> []" and g: "goes_on w (run (calls w) (invocation w redirect a))"
    using Cons.prems(1) outcome_0[of run w redirect a cmds] by auto
  obtain w1 where s: "run_command run redirect i a w = (Next, w1)"
    using run_command_goes_on[where run=run and w=w and redirect=redirect and argv=a and i=i, OF a g]
    by (cases "run_command run redirect i a w") simp
  have fr: "frame_venv (venv w) (venv w1)" and se: "sys_executable w1 = sys_executable w"
    using run_command_frame[of w run redirect i a] run_command_fields(3)[of run redirect i a w] s
    by simp_all
  have c1: "calls w1 = calls w @ [invocation w redirect a]"
    using run_command_calls[of run redirect i a w] s a by simp
  have st: "status (venv w1) = failed_status w1"
    using run_command_status_stable[where run=run and w=w and redirect=redirect and argv=a and i=i,
            OF a g Cons.prems(2)] s failed_status_cong[OF fr]
    by simp
  have hyp: "\<forall>j<length cmds. cmds ! j \<noteq> [] \<and> goes_on w1 (outcome run w1 redirect cmds j)"
  proof (intro allI impI)
    fix j assume j: "j < length cmds"
    then have "(a # cmds) ! Suc j \<noteq> [] \<and> goes_on w (outcome run w redirect (a # cmds) (Suc j))"
      using Cons.prems(1) by (metis Suc_less_eq length_Cons)
    then show "cmds ! j \<noteq> [] \<and> goes_on w1 (outcome run w1 redirect cmds j)"
      using outcome_Suc[OF fr se c1] goes_on_cong[OF fr] by simp
  qed
  have "run_commands run redirect i (a # cmds) w = run_commands run redirect (Suc i) cmds w1"
    using s by simp
  then show ?case
    using Cons.IH[OF hyp st, of "Suc i"] failed_status_cong[OF fr] by simp
qed

lemma outcome_take:
  "j < k \<Longrightarrow> k \<le> length cmds \<Longrightarrow>
     outcome run w redirect (take k cmds) j = outcome run w redirect cmds j"
  by (simp add: outcome_def min_def)

lemma outcome_drop:
  assumes "frame_venv (venv w) (venv u)" and "sys_executable u = sys_executable w"
    and "calls u = calls w @ map (invocation w redirect) (take k cmds)"
    and "k \<le> length cmds"
  shows "outcome run u redirect (drop k cmds) j = outcome run w redirect cmds (k + j)"
  using assms
  by (simp add: outcome_def invocation_fun_cong take_add)

lemma loop_start_fields [simp]:
  "venv (loop_start w) = venv w"
  "sys_executable (loop_start w) = sys_executable w"
  "calls (loop_start w) = calls w"
  "report (loop_start w) = report w"
  by (simp_all add: loop_start_def Let_def)

lemma finish_hook:
  "fst (case x of (Inl e, w) \<Rightarrow> (Inl e, w) | (Inr v, w) \<Rightarrow> (Inr True, w))
     = (case fst x of Inl e \<Rightarrow> Inl e | Inr v \<Rightarrow> Inr True)"
  "snd (case x of (Inl e, w) \<Rightarrow> (Inl e, w) | (Inr v, w) \<Rightarrow> (Inr True, w)) = snd x"
  by (cases x; cases "fst x"; simp)+

lemma tox_runtest_wrap:
  "tox_runtest run redirect w =
     (case wrap_pipenv_environment (path_join (path (venv w)) ''Pipfile'')
             (\<lambda>w3. run_commands run redirect 0 (commands (venv w3))
                      (setactivity ''runtests''
                         (''PYTHONHASHSEED='' @ repr (environ w3 ''PYTHONHASHSEED'')) w3))
             (snd (clone_pipfile (init_pipenv_environ w))) of
        (Inl e, w4) \<Rightarrow> (Inl e, w4)
      | (Inr v, w4) \<Rightarrow> (Inr True, w4))"
proof -
  obtain pp w2 where c: "clone_pipfile (init_pipenv_environ w) = (pp, w2)"
    by (cases "clone_pipfile (init_pipenv_environ w)")
  have "pp = path_join (path (venv w)) ''Pipfile''"
    using clone_pipfile_fields(1)[of "init_pipenv_environ w"] c by simp
  then show ?thesis
    using c by (simp add: tox_runtest_def Let_def)
qed

lemma tox_runtest_loop:
  "fst (tox_runtest run redirect w) =
     (case fst (run_commands run redirect 0 (commands (venv w)) (loop_start w)) of
        Inl e \<Rightarrow> Inl e | Inr v \<Rightarrow> Inr True)"
  "venv (snd (tox_runtest run redirect w)) =
     venv (snd (run_commands run redirect 0 (commands (venv w)) (loop_start w)))"
  "calls (snd (tox_runtest run redirect w)) =
     calls (snd (run_commands run redirect 0 (commands (venv w)) (loop_start w)))"
  "report (snd (tox_runtest run redirect w)) =
     report (snd (run_commands run redirect 0 (commands (venv w)) (loop_start w)))"
  by (simp_all only: tox_runtest_wrap finish_hook wrap_fields)
     (simp_all add: loop_start_def Let_def)

lemma invocation_loop_start [simp]:
  "invocation (loop_start w) redirect = invocation w redirect"
  by (rule ext) (simp add: invocation_def)

lemma outcome_loop_start [simp]:
  "outcome run (loop_start w) redirect cmds j = outcome run w redirect cmds j"
  by (simp add: outcome_def)

lemma goes_on_loop_start [simp]: "goes_on (loop_start w) r = goes_on w r"
  by (cases r; cases "projl r") (simp_all add: goes_on_def)

lemma failed_status_loop_start [simp]: "failed_status (loop_start w) = failed_status w"
  by (simp add: failed_status_def)

lemma failure_entry_cong:
  "frame_venv (venv w) (venv w') \<Longrightarrow> failure_entry w' err = failure_entry w err"
  by (simp add: failure_entry_def frame_venv_fields)

lemma handle_outcome_failed:
  "fst (handle_outcome (Inl (InvocationError err)) w) =
     (if ignore_outcome (venv w) \<or> ignore_errors (venv w) then Next else Break)"
  "status (venv (snd (handle_outcome (Inl (InvocationError err)) w))) = failed_status w"
  "report (snd (handle_outcome (Inl (InvocationError err)) w)) = report w @ [failure_entry w err]"
  by (simp_all add: handle_outcome_simps failed_status_def failure_entry_def)

lemma run_command_failed:
  assumes "argv \<noteq> []"
    and "run (calls w) (invocation w redirect argv) = Inl (InvocationError err)"
  shows "fst (run_command run redirect i argv w) =
           (if ignore_outcome (venv w) \<or> ignore_errors (venv w) then Next else Break)"
    and "status (venv (snd (run_command run redirect i argv w))) = failed_status w"
    and "report (snd (run_command run redirect i argv w)) = report w @ [failure_entry w err]"
proof -
  let ?c = "invocation w redirect argv"
  let ?w1 = "snd (pcall run ?c (at_call i argv w))"
  have fr: "frame_venv (venv w) (venv ?w1)" by simp
  have rc: "run_command run redirect i argv w = handle_outcome (Inl (InvocationError err)) ?w1"
    using run_command_nonempty[OF assms(1), of run redirect i w] assms(2) by simp
  show "fst (run_command run redirect i argv w) =
           (if ignore_outcome (venv w) \<or> ignore_errors (venv w) then Next else Break)"
    unfolding rc handle_outcome_failed using frame_venv_fields[OF fr] by simp
  show "status (venv (snd (run_command run redirect i argv w))) = failed_status w"
    unfolding rc handle_outcome_failed using failed_status_cong[OF fr] by simp
  show "report (snd (run_command run redirect i argv w)) = report w @ [failure_entry w err]"
    unfolding rc handle_outcome_failed using failure_entry_cong[OF fr] by simp
qed

lemma run_command_interrupted:
  assumes "argv \<noteq> []"
    and "run (calls w) (invocation w redirect argv) = Inl KeyboardInterrupt"
  shows "fst (run_command run redirect i argv w) = Raise KeyboardInterrupt"
    and "status (venv (snd (run_command run redirect i argv w))) = ''keyboardinterrupt''"
    and "report (snd (run_command run redirect i argv w)) = report w @ [Error ''keyboardinterrupt'']"
  using run_command_nonempty[OF assms(1), of run redirect i w] assms(2)
  by (simp_all add: handle_outcome_simps)

lemma loop_reaches:
  assumes "i < length cmds"
    and "\<forall>j<i. cmds ! j \<noteq> [] \<and> goes_on w (outcome run w redirect cmds j)"
  obtains u where
    "run_commands run redirect i0 cmds w
       = run_commands run redirect (i0 + i) (cmds ! i # drop (Suc i) cmds) u"
    and "frame_loop w u"
    and "calls u = calls w @ map (invocation w redirect) (take i cmds)"
    and "run (calls u) (invocation u redirect (cmds ! i)) = outcome run w redirect cmds i"
proof -
  let ?pre = "take i cmds"
  let ?u = "snd (run_commands run redirect i0 ?pre w)"
  have len: "length ?pre = i" using assms(1) by simp
  have hyp: "\<forall>j<length ?pre. ?pre ! j \<noteq> [] \<and> goes_on w (outcome run w redirect ?pre j)"
    using assms by (simp add: outcome_take)
  have split: "cmds = ?pre @ cmds ! i # drop (Suc i) cmds"
    using assms(1) by (simp add: id_take_nth_drop)
  note app = run_commands_append[OF hyp, of i0 "cmds ! i # drop (Suc i) cmds"]
  have 1: "run_commands run redirect i0 cmds w
             = run_commands run redirect (i0 + i) (cmds ! i # drop (Suc i) cmds) ?u"
    using app split len by metis
  have 2: "frame_loop w ?u" by (rule run_commands_frame_loop)
  have 3: "calls ?u = calls w @ map (invocation w redirect) ?pre"
    using app by simp
  have "invocation ?u redirect = invocation w redirect"
    using 2 by (simp add: frame_loop_def invocation_fun_cong)
  then have 4: "run (calls ?u) (invocation ?u redirect (cmds ! i)) = outcome run w redirect cmds i"
    using 3 by (simp add: outcome_def)
  show thesis using that[OF 1 2 3 4] .
qed

lemma prefix_new_entry:
  assumes "prefix a b" and "prefix (b @ [x]) c"
  shows "x \<in> set (drop (length a) c)"
proof -
  obtain e0 where b: "b = a @ e0" using assms(1) by (auto simp: prefix_def)
  obtain e1 where c: "c = (b @ [x]) @ e1" using assms(2) by (auto simp: prefix_def)
  show ?thesis unfolding c b by simp
qed

lemma loop_failure_goes_on:
  assumes all: "\<forall>j<length cmds. cmds ! j \<noteq> [] \<and> goes_on w (outcome run w redirect cmds j)"
    and i: "i < length cmds"
    and f: "outcome run w redirect cmds i = Inl (InvocationError err)"
  shows "fst (run_commands run redirect i0 cmds w) = Inr ()"
    and "calls (snd (run_commands run redirect i0 cmds w))
           = calls w @ map (invocation w redirect) cmds"
    and "status (venv (snd (run_commands run redirect i0 cmds w))) = failed_status w"
    and "failure_entry w err
           \<in> set (drop (length (report w)) (report (snd (run_commands run redirect i0 cmds w))))"
proof -
  note app = run_commands_append[OF all, of i0 "[]"]
  show "fst (run_commands run redirect i0 cmds w) = Inr ()"
    using app by simp
  show "calls (snd (run_commands run redirect i0 cmds w))
          = calls w @ map (invocation w redirect) cmds"
    using app by simp
  have reach: "\<forall>j<i. cmds ! j \<noteq> [] \<and> goes_on w (outcome run w redirect cmds j)"
    using all i by simp
  obtain u where
    u1: "run_commands run redirect i0 cmds w
           = run_commands run redirect (i0 + i) (cmds ! i # drop (Suc i) cmds) u"
    and u2: "frame_loop w u"
    and u3: "calls u = calls w @ map (invocation w redirect) (take i cmds)"
    and u4: "run (calls u) (invocation u redirect (cmds ! i)) = outcome run w redirect cmds i"
    using loop_reaches[OF i reach, of i0] by blast
  have fru: "frame_venv (venv w) (venv u)" and seu: "sys_executable u = sys_executable w"
    using u2 by (simp_all add: frame_loop_def)
  have ne: "cmds ! i \<noteq> []" using all i by simp
  have r: "run (calls u) (invocation u redirect (cmds ! i)) = Inl (InvocationError err)"
    using u4 f by simp
  have g: "goes_on u (Inl (InvocationError err))"
    using all i f goes_on_cong[OF fru] by metis
  let ?rc = "run_command run redirect (i0 + i) (cmds ! i) u"
  let ?v = "snd ?rc"
  have flow: "fst ?rc = Next"
    using run_command_goes_on[where run=run and w=u and redirect=redirect and argv="cmds ! i"
            and i="i0 + i", OF ne] g r by simp
  have st: "status (venv ?v) = failed_status u"
    and rp: "report ?v = report u @ [failure_entry u err]"
    using run_command_failed(2,3)[where run=run and w=u and redirect=redirect
            and argv="cmds ! i" and i="i0 + i", OF ne r] by simp_all
  have frv: "frame_venv (venv u) (venv ?v)" by simp
  have frwv: "frame_venv (venv w) (venv ?v)" using fru frv by (rule frame_venv_trans)
  have sev: "sys_executable ?v = sys_executable w" using seu by simp
  have inv_u: "invocation u redirect = invocation w redirect"
    using fru seu by (rule invocation_fun_cong)
  have cv: "calls ?v = calls w @ map (invocation w redirect) (take (Suc i) cmds)"
    using run_command_calls[of run redirect "i0 + i" "cmds ! i" u] ne u3 inv_u i
    by (simp add: take_Suc_conv_app_nth)
  have step: "run_commands run redirect i0 cmds w
                = run_commands run redirect (Suc (i0 + i)) (drop (Suc i) cmds) ?v"
    unfolding u1 using flow run_commands_Cons(1)[of run redirect "i0 + i" "cmds ! i" u ?v]
    by (metis prod.collapse)
  have rest: "\<forall>j<length (drop (Suc i) cmds). drop (Suc i) cmds ! j \<noteq> [] \<and>
                goes_on ?v (outcome run ?v redirect (drop (Suc i) cmds) j)"
  proof (intro allI impI)
    fix j assume j: "j < length (drop (Suc i) cmds)"
    then have lt: "Suc i + j < length cmds" by simp
    have "outcome run ?v redirect (drop (Suc i) cmds) j = outcome run w redirect cmds (Suc i + j)"
      using outcome_drop[OF frwv sev cv] i by simp
    moreover have "drop (Suc i) cmds ! j = cmds ! (Suc i + j)"
      using i by simp
    ultimately show "drop (Suc i) cmds ! j \<noteq> [] \<and>
                       goes_on ?v (outcome run ?v redirect (drop (Suc i) cmds) j)"
      using all lt goes_on_cong[OF frwv] by simp
  qed
  have stv: "status (venv ?v) = failed_status ?v"
    using st failed_status_cong[OF frv] by simp
  show "status (venv (snd (run_commands run redirect i0 cmds w))) = failed_status w"
    unfolding step
    using run_commands_status_stable[OF rest stv, of "Suc (i0 + i)"] failed_status_cong[OF frwv]
    by simp
  have "prefix (report ?v) (report (snd (run_commands run redirect (Suc (i0 + i)) (drop (Suc i) cmds) ?v)))"
    using run_commands_frame_loop[of ?v run redirect "Suc (i0 + i)" "drop (Suc i) cmds"]
    by (simp add: frame_loop_def)
  moreover have "prefix (report w) (report u)"
    using u2 by (simp add: frame_loop_def)
  ultimately show "failure_entry w err
      \<in> set (drop (length (report w)) (report (snd (run_commands run redirect i0 cmds w))))"
    unfolding step using rp failure_entry_cong[OF fru] prefix_new_entry by metis
qed

lemma loop_failure_breaks:
  assumes i: "i < length cmds"
    and reach: "\<forall>j<i. cmds ! j \<noteq> [] \<and> goes_on w (outcome run w redirect cmds j)"
    and ne: "cmds ! i \<noteq> []"
    and f: "outcome run w redirect cmds i = Inl (InvocationError err)"
    and io: "\<not> ignore_outcome (venv w)" and ie: "\<not> ignore_errors (venv w)"
  shows "fst (run_commands run redirect i0 cmds w) = Inr ()"
    and "calls (snd (run_commands run redirect i0 cmds w))
           = calls w @ map (invocation w redirect) (take (Suc i) cmds)"
    and "status (venv (snd (run_commands run redirect i0 cmds w))) = ''commands failed''"
    and "\<exists>es. report (snd (run_commands run redirect i0 cmds w)) = report w @ es @ [Error err]"
proof -
  obtain u where
    u1: "run_commands run redirect i0 cmds w
           = run_commands run redirect (i0 + i) (cmds ! i # drop (Suc i) cmds) u"
    and u2: "frame_loop w u"
    and u3: "calls u = calls w @ map (invocation w redirect) (take i cmds)"
    and u4: "run (calls u) (invocation u redirect (cmds ! i)) = outcome run w redirect cmds i"
    using loop_reaches[OF i reach, of i0] by blast
  have fru: "frame_venv (venv w) (venv u)" and seu: "sys_executable u = sys_executable w"
    using u2 by (simp_all add: frame_loop_def)
  have r: "run (calls u) (invocation u redirect (cmds ! i)) = Inl (InvocationError err)"
    using u4 f by simp
  let ?rc = "run_command run redirect (i0 + i) (cmds ! i) u"
  let ?v = "snd ?rc"
  have flags: "\<not> ignore_outcome (venv u)" "\<not> ignore_errors (venv u)"
    using io ie frame_venv_fields[OF fru] by simp_all
  have flow: "fst ?rc = Break"
    using run_command_failed(1)[where run=run and w=u and redirect=redirect
            and argv="cmds ! i" and i="i0 + i", OF ne r] flags by simp
  have st: "status (venv ?v) = ''commands failed''"
    and rp: "report ?v = report u @ [Error err]"
    using run_command_failed(2,3)[where run=run and w=u and redirect=redirect
            and argv="cmds ! i" and i="i0 + i", OF ne r] flags
    by (simp_all add: failed_status_def failure_entry_def)
  have inv_u: "invocation u redirect = invocation w redirect"
    using fru seu by (rule invocation_fun_cong)
  have cv: "calls ?v = calls w @ map (invocation w redirect) (take (Suc i) cmds)"
    using run_command_calls[of run redirect "i0 + i" "cmds ! i" u] ne u3 inv_u i
    by (simp add: take_Suc_conv_app_nth)
  have step: "run_commands run redirect i0 cmds w = (Inr (), ?v)"
    unfolding u1 using flow run_commands_Cons(2)[of run redirect "i0 + i" "cmds ! i" u ?v]
    by (metis prod.collapse)
  show "fst (run_commands run redirect i0 cmds w) = Inr ()" by (simp add: step)
  show "calls (snd (run_commands run redirect i0 cmds w))
           = calls w @ map (invocation w redirect) (take (Suc i) cmds)"
    using cv by (simp add: step)
  show "status (venv (snd (run_commands run redirect i0 cmds w))) = ''commands failed''"
    using st by (simp add: step)
  obtain es where "report u = report w @ es"
    using u2 by (auto simp: frame_loop_def prefix_def)
  then show "\<exists>es. report (snd (run_commands run redirect i0 cmds w)) = report w @ es @ [Error err]"
    using rp by (simp add: step)
qed

lemma loop_interrupted:
  assumes i: "i < length cmds"
    and reach: "\<forall>j<i. cmds ! j \<noteq> [] \<and> goes_on w (outcome run w redirect cmds j)"
    and ne: "cmds ! i \<noteq> []"
    and f: "outcome run w redirect cmds i = Inl KeyboardInterrupt"
  shows "fst (run_commands run redirect i0 cmds w) = Inl KeyboardInterrupt"
    and "calls (snd (run_commands run redirect i0 cmds w))
           = calls w @ map (invocation w redirect) (take (Suc i) cmds)"
    and "status (venv (snd (run_commands run redirect i0 cmds w))) = ''keyboardinterrupt''"
    and "\<exists>es. report (snd (run_commands run redirect i0 cmds w))
               = report w @ es @ [Error ''keyboardinterrupt'']"
proof -
  obtain u where
    u1: "run_commands run redirect i0 cmds w
           = run_commands run redirect (i0 + i) (cmds ! i # drop (Suc i) cmds) u"
    and u2: "frame_loop w u"
    and u3: "calls u = calls w @ map (invocation w redirect) (take i cmds)"
    and u4: "run (calls u) (invocation u redirect (cmds ! i)) = outcome run w redirect cmds i"
    using loop_reaches[OF i reach, of i0] by blast
  have fru: "frame_venv (venv w) (venv u)" and seu: "sys_executable u = sys_executable w"
    using u2 by (simp_all add: frame_loop_def)
  have r: "run (calls u) (invocation u redirect (cmds ! i)) = Inl KeyboardInterrupt"
    using u4 f by simp
  let ?rc = "run_command run redirect (i0 + i) (cmds ! i) u"
  let ?v = "snd ?rc"
  have flow: "fst ?rc = Raise KeyboardInterrupt"
    and st: "status (venv ?v) = ''keyboardinterrupt''"
    and rp: "report ?v = report u @ [Error ''keyboardinterrupt'']"
    using run_command_interrupted[where run=run and w=u and redirect=redirect
            and argv="cmds ! i" and i="i0 + i", OF ne r] by simp_all
  have inv_u: "invocation u redirect = invocation w redirect"
    using fru seu by (rule invocation_fun_cong)
  have cv: "calls ?v = calls w @ map (invocation w redirect) (take (Suc i) cmds)"
    using run_command_calls[of run redirect "i0 + i" "cmds ! i" u] ne u3 inv_u i
    by (simp add: take_Suc_conv_app_nth)
  have step: "run_commands run redirect i0 cmds w = (Inl KeyboardInterrupt, ?v)"
    unfolding u1
    using flow run_commands_Cons(3)[of run redirect "i0 + i" "cmds ! i" u KeyboardInterrupt ?v]
    by (metis prod.collapse)
  show "fst (run_commands run redirect i0 cmds w) = Inl KeyboardInterrupt" by (simp add: step)
  show "calls (snd (run_commands run redirect i0 cmds w))
           = calls w @ map (invocation w redirect) (take (Suc i) cmds)"
    using cv by (simp add: step)
  show "status (venv (snd (run_commands run redirect i0 cmds w))) = ''keyboardinterrupt''"
    using st by (simp add: step)
  obtain es where "report u = report w @ es"
    using u2 by (auto simp: frame_loop_def prefix_def)
  then show "\<exists>es. report (snd (run_commands run redirect i0 cmds w))
               = report w @ es @ [Error ''keyboardinterrupt'']"
    using rp by (simp add: step)
qed

section \<open>Failures and interrupts in \<^verbatim>\<open>tox_runtest\<close>\<close>

lemma returns_or_fails_goes_on:
  "ignore_outcome (venv w) \<or> ignore_errors (venv w) \<Longrightarrow> returns_or_fails r \<Longrightarrow> goes_on w r"
  by (cases r; cases "projl r") (simp_all add: returns_or_fails_def goes_on_def)

lemma returned_goes_on: "r = Inr out \<Longrightarrow> goes_on w r"
  by (simp add: goes_on_def)

text \<open>
  Claim C4. In \<^verbatim>\<open>tox_runtest\<close>, let the environment's ignore-outcome flag be set and let
  the invocation for the command at index \<open>i\<close> fail with an invocation error \<open>err\<close>, where
  no invocation of the list is interrupted or crashes. Then the hook returns \<^verbatim>\<open>True\<close>,
  the warning for \<open>err\<close> is among the entries the hook adds to the report, the status
  is \<^verbatim>\<open>"ignored failed command"\<close> when the hook returns, and every command of the list
  has been invoked, in order: the ones after index \<open>i\<close> are still executed.
\<close>

theorem ignore_outcome_failure_continues:
  assumes "ignore_outcome (venv w)"
    and "i < length (commands (venv w))"
    and "outcome run w redirect (commands (venv w)) i = Inl (InvocationError err)"
    and "\<forall>j<length (commands (venv w)). commands (venv w) ! j \<noteq> [] \<and>
           returns_or_fails (outcome run w redirect (commands (venv w)) j)"
  shows "fst (tox_runtest run redirect w) = Inr True
       \<and> Warning (warning_text err)
           \<in> set (drop (length (report w)) (report (snd (tox_runtest run redirect w))))
       \<and> status (venv (snd (tox_runtest run redirect w))) = ''ignored failed command''
       \<and> calls (snd (tox_runtest run redirect w))
           = calls w @ map (invocation w redirect) (commands (venv w))"
proof -
  let ?cmds = "commands (venv w)"
  let ?s = "loop_start w"
  have all: "\<forall>j<length ?cmds. ?cmds ! j \<noteq> [] \<and> goes_on ?s (outcome run ?s redirect ?cmds j)"
    using assms(1,4) returns_or_fails_goes_on[of w] by simp
  have f: "outcome run ?s redirect ?cmds i = Inl (InvocationError err)"
    using assms(3) by simp
  note l = loop_failure_goes_on[OF all assms(2) f, of 0]
  show ?thesis
    using l assms(1)
    by (simp add: tox_runtest_loop failed_status_def failure_entry_def)
qed

text \<open>
  Claim C5. In \<^verbatim>\<open>tox_runtest\<close>, let the ignore-outcome flag be off and let the invocation
  for the command at index \<open>i\<close> fail with an invocation error \<open>err\<close>. If the ignore-errors
  flag is off too (so that the loop got to index \<open>i\<close> because every earlier invocation
  returned), the error is the last entry of the report, the status is
  \<^verbatim>\<open>"commands failed"\<close> and the invocations made are exactly those of the commands
  \<open>0..i\<close>: no command after index \<open>i\<close> is executed. If the ignore-errors flag is on, the
  error is logged, the status is \<^verbatim>\<open>"commands failed"\<close> and every command of the list
  is invoked.
\<close>

theorem failure_sets_commands_failed:
  assumes "\<not> ignore_outcome (venv w)"
    and "i < length (commands (venv w))"
    and "commands (venv w) ! i \<noteq> []"
    and "outcome run w redirect (commands (venv w)) i = Inl (InvocationError err)"
  shows "(\<not> ignore_errors (venv w) \<and>
          (\<forall>j<i. commands (venv w) ! j \<noteq> [] \<and>
                 (\<exists>out. outcome run w redirect (commands (venv w)) j = Inr out)) \<longrightarrow>
            fst (tox_runtest run redirect w) = Inr True
          \<and> (\<exists>es. report (snd (tox_runtest run redirect w)) = report w @ es @ [Error err])
          \<and> status (venv (snd (tox_runtest run redirect w))) = ''commands failed''
          \<and> calls (snd (tox_runtest run redirect w))
              = calls w @ map (invocation w redirect) (take (Suc i) (commands (venv w))))
       \<and> (ignore_errors (venv w) \<and>
          (\<forall>j<length (commands (venv w)). commands (venv w) ! j \<noteq> [] \<and>
                 returns_or_fails (outcome run w redirect (commands (venv w)) j)) \<longrightarrow>
            fst (tox_runtest run redirect w) = Inr True
          \<and> Error err \<in> set (drop (length (report w)) (report (snd (tox_runtest run redirect w))))
          \<and> status (venv (snd (tox_runtest run redirect w))) = ''commands failed''
          \<and> calls (snd (tox_runtest run redirect w))
              = calls w @ map (invocation w redirect) (commands (venv w)))"
proof (intro conjI impI)
  let ?cmds = "commands (venv w)"
  let ?s = "loop_start w"
  have f: "outcome run ?s redirect ?cmds i = Inl (InvocationError err)"
    using assms(4) by simp
  {
    assume a: "\<not> ignore_errors (venv w) \<and>
          (\<forall>j<i. ?cmds ! j \<noteq> [] \<and> (\<exists>out. outcome run w redirect ?cmds j = Inr out))"
    have reach: "\<forall>j<i. ?cmds ! j \<noteq> [] \<and> goes_on ?s (outcome run ?s redirect ?cmds j)"
      using a returned_goes_on[of _ _ w] by auto
    have io: "\<not> ignore_outcome (venv ?s)" and ie: "\<not> ignore_errors (venv ?s)"
      using assms(1) a by simp_all
    note l = loop_failure_breaks[OF assms(2) reach assms(3) f io ie, of 0]
    show "fst (tox_runtest run redirect w) = Inr True"
      using l(1) by (simp add: tox_runtest_loop)
    show "\<exists>es. report (snd (tox_runtest run redirect w)) = report w @ es @ [Error err]"
      using l(4) by (simp add: tox_runtest_loop)
    show "status (venv (snd (tox_runtest run redirect w))) = ''commands failed''"
      using l(3) by (simp add: tox_runtest_loop)
    show "calls (snd (tox_runtest run redirect w))
            = calls w @ map (invocation w redirect) (take (Suc i) ?cmds)"
      using l(2) by (simp add: tox_runtest_loop)
  }
  {
    assume a: "ignore_errors (venv w) \<and>
          (\<forall>j<length ?cmds. ?cmds ! j \<noteq> [] \<and> returns_or_fails (outcome run w redirect ?cmds j))"
    have all: "\<forall>j<length ?cmds. ?cmds ! j \<noteq> [] \<and> goes_on ?s (outcome run ?s redirect ?cmds j)"
      using a returns_or_fails_goes_on[of w] by simp
    note l = loop_failure_goes_on[OF all assms(2) f, of 0]
    show "fst (tox_runtest run redirect w) = Inr True"
      using l(1) by (simp add: tox_runtest_loop)
    show "Error err \<in> set (drop (length (report w)) (report (snd (tox_runtest run redirect w))))"
      using l(4) assms(1) by (simp add: tox_runtest_loop failure_entry_def)
    show "status (venv (snd (tox_runtest run redirect w))) = ''commands failed''"
      using l(3) assms(1) by (simp add: tox_runtest_loop failed_status_def)
    show "calls (snd (tox_runtest run redirect w))
            = calls w @ map (invocation w redirect) ?cmds"
      using l(2) by (simp add: tox_runtest_loop)
  }
qed

text \<open>
  Claim C6. In \<^verbatim>\<open>tox_runtest\<close>, let the invocation for the command at index \<open>i\<close> be hit by
  a \<^verbatim>\<open>KeyboardInterrupt\<close>, at whatever index the loop has got to and whatever the
  ignore-outcome and ignore-errors flags are. Then the status is \<^verbatim>\<open>"keyboardinterrupt"\<close>,
  that status is the last entry of the report, as an error, the hook raises
  \<^verbatim>\<open>KeyboardInterrupt\<close> to its caller, and no later command is invoked.
\<close>

theorem keyboard_interrupt_propagates:
  assumes "i < length (commands (venv w))"
    and "commands (venv w) ! i \<noteq> []"
    and "outcome run w redirect (commands (venv w)) i = Inl KeyboardInterrupt"
    and "\<forall>j<i. commands (venv w) ! j \<noteq> [] \<and>
                goes_on w (outcome run w redirect (commands (venv w)) j)"
  shows "fst (tox_runtest run redirect w) = Inl KeyboardInterrupt
       \<and> status (venv (snd (tox_runtest run redirect w))) = ''keyboardinterrupt''
       \<and> (\<exists>es. report (snd (tox_runtest run redirect w))
                  = report w @ es @ [Error ''keyboardinterrupt''])
       \<and> calls (snd (tox_runtest run redirect w))
           = calls w @ map (invocation w redirect) (take (Suc i) (commands (venv w)))"
proof -
  let ?cmds = "commands (venv w)"
  let ?s = "loop_start w"
  have f: "outcome run ?s redirect ?cmds i = Inl KeyboardInterrupt"
    using assms(3) by simp
  have reach: "\<forall>j<i. ?cmds ! j \<noteq> [] \<and> goes_on ?s (outcome run ?s redirect ?cmds j)"
    using assms(4) by simp
  note l = loop_interrupted[OF assms(1) reach assms(2) f, of 0]
  show ?thesis
    using l by (simp add: tox_runtest_loop)
qed

lemma example_venv_fields [simp]:
  "commands example_venv = [[''-'', ''false''], [''pytest'']]"
  "ignore_outcome example_venv = False"
  "ignore_errors example_venv = False"
  "changedir example_venv = [''proj'']"
  "status example_venv = []"
  by (simp_all add: example_venv_def)

lemma example_world_logs [simp]:
  "report example_world = []"
  "activity example_world = []"
  "nodes example_world = []"
  by (simp_all add: example_world_def)

lemma example_invocations [simp]:
  "invocation example_world redirect [''-'', ''false''] =
     \<lparr>call_args = [''python'', ''-m'', ''pipenv'', ''run'', ''false''], call_cwd = [''proj''],
      call_redirect = redirect, call_ignore_ret = True\<rparr>"
  "invocation example_world redirect [''pytest''] =
     \<lparr>call_args = [''python'', ''-m'', ''pipenv'', ''run'', ''pytest''], call_cwd = [''proj''],
      call_redirect = redirect, call_ignore_ret = False\<rparr>"
  by (simp_all add: invocation_def altered_def ignore_ret_of_def startswith_dash_def)

theorem ignore_outcome_failure_continues_witness:
  "fst (tox_runtest (fails_at 0) False
          (example_world\<lparr>venv := example_venv\<lparr>ignore_outcome := True\<rparr>\<rparr>)) = Inr True
   \<and> status (venv (snd (tox_runtest (fails_at 0) False
          (example_world\<lparr>venv := example_venv\<lparr>ignore_outcome := True\<rparr>\<rparr>))))
       = ''ignored failed command''
   \<and> map call_args (calls (snd (tox_runtest (fails_at 0) False
          (example_world\<lparr>venv := example_venv\<lparr>ignore_outcome := True\<rparr>\<rparr>))))
       = [[''python'', ''-m'', ''pipenv'', ''run'', ''false''],
          [''python'', ''-m'', ''pipenv'', ''run'', ''pytest'']]"
proof -
  let ?w = "example_world\<lparr>venv := example_venv\<lparr>ignore_outcome := True\<rparr>\<rparr>"
  have h1: "ignore_outcome (venv ?w)" by simp
  have h2: "0 < length (commands (venv ?w))" by simp
  have h3: "outcome (fails_at 0) ?w False (commands (venv ?w)) 0 = Inl (InvocationError ''boom'')"
    by (simp add: outcome_def fails_at_def)
  have h4: "\<forall>j<length (commands (venv ?w)). commands (venv ?w) ! j \<noteq> [] \<and>
              returns_or_fails (outcome (fails_at 0) ?w False (commands (venv ?w)) j)"
    by (simp add: All_less_Suc outcome_def fails_at_def returns_or_fails_def)
  show ?thesis
    using ignore_outcome_failure_continues [OF h1 h2 h3 h4]
    by (simp add: invocation_def altered_def ignore_ret_of_def startswith_dash_def)
qed

theorem failure_sets_commands_failed_witness:
  "status (venv (snd (tox_runtest (fails_at 0) False example_world))) = ''commands failed''
   \<and> map call_args (calls (snd (tox_runtest (fails_at 0) False example_world)))
       = [[''python'', ''-m'', ''pipenv'', ''run'', ''false'']]
   \<and> status (venv (snd (tox_runtest (fails_at 0) False
          (example_world\<lparr>venv := example_venv\<lparr>ignore_errors := True\<rparr>\<rparr>))))
       = ''commands failed''
   \<and> map call_args (calls (snd (tox_runtest (fails_at 0) False
          (example_world\<lparr>venv := example_venv\<lparr>ignore_errors := True\<rparr>\<rparr>))))
       = [[''python'', ''-m'', ''pipenv'', ''run'', ''false''],
          [''python'', ''-m'', ''pipenv'', ''run'', ''pytest'']]"
proof -
  let ?w = "example_world"
  let ?v = "example_world\<lparr>venv := example_venv\<lparr>ignore_errors := True\<rparr>\<rparr>"
  have w1: "\<not> ignore_outcome (venv ?w)" by simp
  have w2: "0 < length (commands (venv ?w))" by simp
  have w3: "commands (venv ?w) ! 0 \<noteq> []" by simp
  have w4: "outcome (fails_at 0) ?w False (commands (venv ?w)) 0 = Inl (InvocationError ''boom'')"
    by (simp add: outcome_def fails_at_def)
  have v1: "\<not> ignore_outcome (venv ?v)" by simp
  have v2: "0 < length (commands (venv ?v))" by simp
  have v3: "commands (venv ?v) ! 0 \<noteq> []" by simp
  have v4: "outcome (fails_at 0) ?v False (commands (venv ?v)) 0 = Inl (InvocationError ''boom'')"
    by (simp add: outcome_def fails_at_def)
  have v5: "\<forall>j<length (commands (venv ?v)). commands (venv ?v) ! j \<noteq> [] \<and>
              returns_or_fails (outcome (fails_at 0) ?v False (commands (venv ?v)) j)"
    by (simp add: All_less_Suc outcome_def fails_at_def returns_or_fails_def)
  show ?thesis
    using failure_sets_commands_failed [OF w1 w2 w3 w4]
      failure_sets_commands_failed [OF v1 v2 v3 v4] v5
    by (simp add: invocation_def altered_def ignore_ret_of_def startswith_dash_def)
qed

theorem keyboard_interrupt_propagates_witness:
  "fst (tox_runtest (interrupted_at 1) True
          (example_world\<lparr>venv := example_venv\<lparr>ignore_outcome := True\<rparr>\<rparr>))
     = Inl KeyboardInterrupt
   \<and> status (venv (snd (tox_runtest (interrupted_at 1) True
          (example_world\<lparr>venv := example_venv\<lparr>ignore_outcome := True\<rparr>\<rparr>))))
       = ''keyboardinterrupt''
   \<and> last (report (snd (tox_runtest (interrupted_at 1) True
          (example_world\<lparr>venv := example_venv\<lparr>ignore_outcome := True\<rparr>\<rparr>))))
       = Error ''keyboardinterrupt''"
proof -
  let ?w = "example_world\<lparr>venv := example_venv\<lparr>ignore_outcome := True\<rparr>\<rparr>"
  have h1: "1 < length (commands (venv ?w))" by simp
  have h2: "commands (venv ?w) ! 1 \<noteq> []" by simp
  have h3: "outcome (interrupted_at 1) ?w True (commands (venv ?w)) 1 = Inl KeyboardInterrupt"
    by (simp add: outcome_def interrupted_at_def)
  have h4: "\<forall>j<1. commands (venv ?w) ! j \<noteq> [] \<and>
              goes_on ?w (outcome (interrupted_at 1) ?w True (commands (venv ?w)) j)"
    by (simp add: outcome_def interrupted_at_def goes_on_def)
  show ?thesis
    using keyboard_interrupt_propagates [OF h1 h2 h3 h4] by auto
qed

section \<open>The call made for a command\<close>

lemma run_commands_after_step:
  "frame_loop (snd (run_command run redirect i argv w))
              (snd (run_commands run redirect i (argv # rest) w))"
proof -
  obtain f w1 where s: "run_command run redirect i argv w = (f, w1)"
    by (cases "run_command run redirect i argv w")
  show ?thesis
  proof (cases f)
    case Next
    with s have "run_commands run redirect i (argv # rest) w
                   = run_commands run redirect (Suc i) rest w1"
      by (simp only: run_commands_Cons(1))
    then show ?thesis
      using s run_commands_frame_loop[of w1 run redirect "Suc i" rest] by simp
  next
    case Break
    with s have "run_commands run redirect i (argv # rest) w = (Inr (), w1)"
      by (simp only: run_commands_Cons(2))
    then show ?thesis using s by simp
  next
    case (Raise x)
    with s have "run_commands run redirect i (argv # rest) w = (Inl x, w1)"
      by (simp only: run_commands_Cons(3))
    then show ?thesis using s by simp
  qed
qed

lemma loop_call_at:
  assumes i: "i < length cmds"
    and reach: "\<forall>j<i. cmds ! j \<noteq> [] \<and> goes_on w (outcome run w redirect cmds j)"
    and ne: "cmds ! i \<noteq> []"
  shows "calls (snd (run_commands run redirect i0 cmds w)) ! (length (calls w) + i)
           = invocation w redirect (cmds ! i)"
proof -
  obtain u where
    u1: "run_commands run redirect i0 cmds w
           = run_commands run redirect (i0 + i) (cmds ! i # drop (Suc i) cmds) u"
    and u2: "frame_loop w u"
    and u3: "calls u = calls w @ map (invocation w redirect) (take i cmds)"
    using loop_reaches[OF i reach, of i0] by blast
  have fru: "frame_venv (venv w) (venv u)" and seu: "sys_executable u = sys_executable w"
    using u2 by (simp_all add: frame_loop_def)
  have inv_u: "invocation u redirect = invocation w redirect"
    using fru seu by (rule invocation_fun_cong)
  let ?v = "snd (run_command run redirect (i0 + i) (cmds ! i) u)"
  have cv: "calls ?v = calls w @ map (invocation w redirect) (take i cmds)
                         @ [invocation w redirect (cmds ! i)]"
    using run_command_calls[of run redirect "i0 + i" "cmds ! i" u] ne u3 inv_u by simp
  have "prefix (calls ?v) (calls (snd (run_commands run redirect i0 cmds w)))"
    unfolding u1
    using run_commands_after_step[of run redirect "i0 + i" "cmds ! i" u "drop (Suc i) cmds"]
    by (simp add: frame_loop_def)
  then obtain ext where "calls (snd (run_commands run redirect i0 cmds w)) = calls ?v @ ext"
    by (auto simp: prefix_def)
  then show ?thesis
    using cv i by (simp add: nth_append)
qed

lemma takeWhile_dash: "takeWhile (\<lambda>c. c = x) s = replicate (length (takeWhile (\<lambda>c. c = x) s)) x"
  by (induction s) simp_all

lemma lstrip_dash_not_dash: "\<not> startswith_dash (lstrip_dash tok)"
proof (induction tok)
  case Nil
  show ?case by (simp add: lstrip_dash_def startswith_dash_def)
next
  case (Cons c cs)
  then show ?case
    by (cases "c = CHR ''-''") (simp_all add: lstrip_dash_def startswith_dash_def)
qed

lemma lstrip_dash_replicate: "\<exists>n. tok = replicate n CHR ''-'' @ lstrip_dash tok"
proof -
  have "tok = takeWhile (\<lambda>c. c = CHR ''-'') tok @ lstrip_dash tok"
    by (simp add: lstrip_dash_def)
  then have "tok = replicate (length (takeWhile (\<lambda>c. c = CHR ''-'') tok)) CHR ''-'' @ lstrip_dash tok"
    using takeWhile_dash[of "CHR ''-''" tok] by simp
  then show ?thesis ..
qed

lemma invocation_Cons:
  "invocation w redirect (tok # toks) =
     \<lparr>call_args = [sys_executable w, ''-m'', ''pipenv'', ''run''] @
                    (if startswith_dash tok
                     then (if tok = ''-'' then toks else lstrip_dash tok # toks)
                     else tok # toks),
      call_cwd = changedir (venv w), call_redirect = redirect,
      call_ignore_ret = startswith_dash tok\<rparr>"
  by (simp add: invocation_def altered_def ignore_ret_of_def)

text \<open>
  Claim C3. For the command at any index \<open>i\<close> that the loop of \<^verbatim>\<open>tox_runtest\<close> gets to,
  with first token \<open>tok\<close> and further tokens \<open>toks\<close>, the call of \<^verbatim>\<open>_pcall\<close> made for it
  (the one at position \<open>i\<close> among the calls the hook adds) is as follows. If \<open>tok\<close> is
  exactly \<^verbatim>\<open>"-"\<close>, the token is removed and \<^verbatim>\<open>ignore_ret\<close> is true. If \<open>tok\<close> starts with
  a dash and is longer, it is replaced by itself without its leading dashes (what is
  left does not start with a dash, and \<open>tok\<close> is some dashes followed by it) and
  \<^verbatim>\<open>ignore_ret\<close> is true. Otherwise \<^verbatim>\<open>ignore_ret\<close> is false and the tokens after
  \<^verbatim>\<open>pipenv run\<close> are the command as it is.
\<close>

theorem dash_prefix_sets_ignore_ret:
  assumes "i < length (commands (venv w))"
    and "commands (venv w) ! i = tok # toks"
    and "\<forall>j<i. commands (venv w) ! j \<noteq> [] \<and>
                goes_on w (outcome run w redirect (commands (venv w)) j)"
  shows "(tok = ''-'' \<longrightarrow>
            call_args (calls (snd (tox_runtest run redirect w)) ! (length (calls w) + i))
              = [sys_executable w, ''-m'', ''pipenv'', ''run''] @ toks
          \<and> call_ignore_ret (calls (snd (tox_runtest run redirect w)) ! (length (calls w) + i)))
       \<and> (startswith_dash tok \<and> tok \<noteq> ''-'' \<longrightarrow>
            call_args (calls (snd (tox_runtest run redirect w)) ! (length (calls w) + i))
              = [sys_executable w, ''-m'', ''pipenv'', ''run''] @ lstrip_dash tok # toks
          \<and> call_ignore_ret (calls (snd (tox_runtest run redirect w)) ! (length (calls w) + i))
          \<and> \<not> startswith_dash (lstrip_dash tok)
          \<and> (\<exists>n. tok = replicate n CHR ''-'' @ lstrip_dash tok))
       \<and> (\<not> startswith_dash tok \<longrightarrow>
            call_args (calls (snd (tox_runtest run redirect w)) ! (length (calls w) + i))
              = [sys_executable w, ''-m'', ''pipenv'', ''run''] @ commands (venv w) ! i
          \<and> \<not> call_ignore_ret (calls (snd (tox_runtest run redirect w)) ! (length (calls w) + i)))"
proof -
  let ?cmds = "commands (venv w)"
  let ?s = "loop_start w"
  let ?c = "calls (snd (tox_runtest run redirect w)) ! (length (calls w) + i)"
  have reach: "\<forall>j<i. ?cmds ! j \<noteq> [] \<and> goes_on ?s (outcome run ?s redirect ?cmds j)"
    using assms(3) by simp
  have ne: "?cmds ! i \<noteq> []" using assms(2) by simp
  have "calls (snd (run_commands run redirect 0 ?cmds ?s)) ! (length (calls ?s) + i)
          = invocation ?s redirect (?cmds ! i)"
    using assms(1) reach ne by (rule loop_call_at)
  then have c: "?c = invocation w redirect (tok # toks)"
    using assms(2) by (simp add: tox_runtest_loop)
  have a: "call_args ?c = [sys_executable w, ''-m'', ''pipenv'', ''run''] @
                    (if startswith_dash tok
                     then (if tok = ''-'' then toks else lstrip_dash tok # toks)
                     else tok # toks)"
    and r: "call_ignore_ret ?c = startswith_dash tok"
    unfolding c invocation_Cons by simp_all
  have 1: "tok = ''-'' \<longrightarrow> call_args ?c = [sys_executable w, ''-m'', ''pipenv'', ''run''] @ toks
             \<and> call_ignore_ret ?c"
    unfolding a r by simp
  have 2: "startswith_dash tok \<and> tok \<noteq> ''-'' \<longrightarrow>
             call_args ?c = [sys_executable w, ''-m'', ''pipenv'', ''run''] @ lstrip_dash tok # toks
             \<and> call_ignore_ret ?c
             \<and> \<not> startswith_dash (lstrip_dash tok)
             \<and> (\<exists>n. tok = replicate n CHR ''-'' @ lstrip_dash tok)"
    unfolding a r using lstrip_dash_not_dash[of tok] lstrip_dash_replicate[of tok] by simp
  have 3: "\<not> startswith_dash tok \<longrightarrow>
             call_args ?c = [sys_executable w, ''-m'', ''pipenv'', ''run''] @ ?cmds ! i
             \<and> \<not> call_ignore_ret ?c"
    unfolding a r using assms(2) by simp
  show ?thesis using 1 2 3 by blast
qed

theorem dash_prefix_sets_ignore_ret_witness:
  "call_args (calls (snd (tox_runtest (\<lambda>h c. Inr []) False example_world)) ! 0)
     = [''python'', ''-m'', ''pipenv'', ''run'', ''false'']
   \<and> call_ignore_ret (calls (snd (tox_runtest (\<lambda>h c. Inr []) False example_world)) ! 0)
   \<and> call_args (calls (snd (tox_runtest (\<lambda>h c. Inr []) False example_world)) ! 1)
     = [''python'', ''-m'', ''pipenv'', ''run'', ''pytest'']
   \<and> \<not> call_ignore_ret (calls (snd (tox_runtest (\<lambda>h c. Inr []) False example_world)) ! 1)
   \<and> call_args (calls (snd (tox_runtest (\<lambda>h c. Inr []) False
         (example_world\<lparr>venv := example_venv\<lparr>commands := [[''--flake8'', ''src'']]\<rparr>\<rparr>))) ! 0)
     = [''python'', ''-m'', ''pipenv'', ''run'', ''flake8'', ''src'']"
proof -
  let ?w = "example_world"
  let ?v = "example_world\<lparr>venv := example_venv\<lparr>commands := [[''--flake8'', ''src'']]\<rparr>\<rparr>"
  let ?run = "(\<lambda>h c. Inr []) :: runner"
  have a1: "0 < length (commands (venv ?w))" by simp
  have a2: "commands (venv ?w) ! 0 = ''-'' # [''false'']" by simp
  have a3: "\<forall>j<0. commands (venv ?w) ! j \<noteq> [] \<and>
              goes_on ?w (outcome ?run ?w False (commands (venv ?w)) j)" by simp
  have b1: "1 < length (commands (venv ?w))" by simp
  have b2: "commands (venv ?w) ! 1 = ''pytest'' # []" by simp
  have b3: "\<forall>j<1. commands (venv ?w) ! j \<noteq> [] \<and>
              goes_on ?w (outcome ?run ?w False (commands (venv ?w)) j)"
    by (simp add: outcome_def goes_on_def)
  have c1: "0 < length (commands (venv ?v))" by simp
  have c2: "commands (venv ?v) ! 0 = ''--flake8'' # [''src'']" by simp
  have c3: "\<forall>j<0. commands (venv ?v) ! j \<noteq> [] \<and>
              goes_on ?v (outcome ?run ?v False (commands (venv ?v)) j)" by simp
  show ?thesis
    using dash_prefix_sets_ignore_ret [OF a1 a2 a3]
      dash_prefix_sets_ignore_ret [OF b1 b2 b3]
      dash_prefix_sets_ignore_ret [OF c1 c2 c3]
    by (simp add: startswith_dash_def lstrip_dash_def)
qed

section \<open>What \<^verbatim>\<open>tox_runtest\<close> writes to the descriptor\<close>

lemma altered_unchanged: "\<not> ignore_ret_of argv \<Longrightarrow> altered argv = argv"
  by (cases argv) (simp_all add: altered_def ignore_ret_of_def)

lemma run_commands_commands:
  "length (commands (venv (snd (run_commands run redirect i0 cmds w))))
     = length (commands (venv w))
   \<and> (\<forall>j<length (commands (venv w)).
         commands (venv (snd (run_commands run redirect i0 cmds w))) ! j = commands (venv w) ! j
         \<or> (i0 \<le> j \<and> j < i0 + length cmds \<and> ignore_ret_of (cmds ! (j - i0)) \<and>
            commands (venv (snd (run_commands run redirect i0 cmds w))) ! j
              = altered (cmds ! (j - i0))))"
proof (induction cmds arbitrary: i0 w)
  case Nil
  show ?case by simp
next
  case (Cons a rest)
  obtain f w1 where s: "run_command run redirect i0 a w = (f, w1)"
    by (cases "run_command run redirect i0 a w")
  have c1: "commands (venv w1) =
              (if ignore_ret_of a then (commands (venv w))[i0 := altered a] else commands (venv w))"
    using run_command_commands[of run redirect i0 a w] s by simp
  have len1: "length (commands (venv w1)) = length (commands (venv w))"
    using c1 by simp
  have one: "\<forall>j<length (commands (venv w)).
               commands (venv w1) ! j = commands (venv w) ! j
               \<or> (j = i0 \<and> ignore_ret_of a \<and> commands (venv w1) ! j = altered a)"
  proof (intro allI impI)
    fix j assume j: "j < length (commands (venv w))"
    show "commands (venv w1) ! j = commands (venv w) ! j
            \<or> (j = i0 \<and> ignore_ret_of a \<and> commands (venv w1) ! j = altered a)"
    proof (cases "ignore_ret_of a \<and> j = i0")
      case True
      then have "commands (venv w1) ! j = altered a"
        using c1 j by simp
      with True show ?thesis by simp
    next
      case False
      then have "commands (venv w1) ! j = commands (venv w) ! j"
        using c1 by (cases "ignore_ret_of a") simp_all
      then show ?thesis by simp
    qed
  qed
  have stop: "snd (run_commands run redirect i0 (a # rest) w) = w1 \<Longrightarrow> ?case"
    using len1 one by auto
  show ?case
  proof (cases f)
    case Next
    with s have step: "run_commands run redirect i0 (a # rest) w
                   = run_commands run redirect (Suc i0) rest w1"
      by (simp only: run_commands_Cons(1))
    let ?w' = "snd (run_commands run redirect (Suc i0) rest w1)"
    note ih = Cons.IH[of "Suc i0" w1]
    have len: "length (commands (venv ?w')) = length (commands (venv w))"
      using ih len1 by simp
    have "\<forall>j<length (commands (venv w)).
            commands (venv ?w') ! j = commands (venv w) ! j
            \<or> (i0 \<le> j \<and> j < i0 + length (a # rest) \<and> ignore_ret_of ((a # rest) ! (j - i0)) \<and>
               commands (venv ?w') ! j = altered ((a # rest) ! (j - i0)))"
    proof (intro allI impI)
      fix j assume j: "j < length (commands (venv w))"
      from ih j len1 consider
        (same) "commands (venv ?w') ! j = commands (venv w1) ! j"
        | (later) "Suc i0 \<le> j" "j < Suc i0 + length rest" "ignore_ret_of (rest ! (j - Suc i0))"
                  "commands (venv ?w') ! j = altered (rest ! (j - Suc i0))"
        by auto
      then show "commands (venv ?w') ! j = commands (venv w) ! j
            \<or> (i0 \<le> j \<and> j < i0 + length (a # rest) \<and> ignore_ret_of ((a # rest) ! (j - i0)) \<and>
               commands (venv ?w') ! j = altered ((a # rest) ! (j - i0)))"
      proof cases
        case same
        then show ?thesis using one j by auto
      next
        case later
        then have "(a # rest) ! (j - i0) = rest ! (j - Suc i0)"
          by (simp add: Suc_diff_le)
        with later show ?thesis by simp
      qed
    qed
    then show ?thesis unfolding step using len by simp
  next
    case Break
    with s have "run_commands run redirect i0 (a # rest) w = (Inr (), w1)"
      by (simp only: run_commands_Cons(2))
    then show ?thesis using stop by simp
  next
    case (Raise x)
    with s have "run_commands run redirect i0 (a # rest) w = (Inl x, w1)"
      by (simp only: run_commands_Cons(3))
    then show ?thesis using stop by simp
  qed
qed

text \<open>
  Claim C8, as amended. \<^verbatim>\<open>tox_runtest\<close> writes two fields of the environment descriptor,
  the status and the stored command list; every other field is the same after the hook
  as before it. The command list keeps its length, and each stored command afterwards
  either holds the tokens it held before or, if its first token starts with a dash,
  holds them with that token removed (when it is exactly \<^verbatim>\<open>"-"\<close>) or stripped of its
  leading dashes. So a command whose first token does not start with a dash is unchanged.
\<close>

theorem runtest_writes_status_and_commands:
  "frame_venv (venv w) (venv (snd (tox_runtest run redirect w)))
   \<and> length (commands (venv (snd (tox_runtest run redirect w)))) = length (commands (venv w))
   \<and> (\<forall>j<length (commands (venv w)).
         commands (venv (snd (tox_runtest run redirect w))) ! j = commands (venv w) ! j
         \<or> (ignore_ret_of (commands (venv w) ! j) \<and>
            commands (venv (snd (tox_runtest run redirect w))) ! j
              = altered (commands (venv w) ! j)))"
proof -
  let ?cmds = "commands (venv w)"
  let ?s = "loop_start w"
  let ?w' = "snd (run_commands run redirect 0 ?cmds ?s)"
  have v: "venv (snd (tox_runtest run redirect w)) = venv ?w'"
    by (simp add: tox_runtest_loop)
  have "frame_loop ?s ?w'" by (rule run_commands_frame_loop)
  then have 1: "frame_venv (venv w) (venv ?w')"
    by (simp add: frame_loop_def)
  note c = run_commands_commands[of run redirect 0 ?cmds ?s]
  have 2: "length (commands (venv ?w')) = length ?cmds"
    using c by simp
  have 3: "\<forall>j<length ?cmds.
             commands (venv ?w') ! j = ?cmds ! j
             \<or> (ignore_ret_of (?cmds ! j) \<and> commands (venv ?w') ! j = altered (?cmds ! j))"
    using c by simp
  show ?thesis
    unfolding v using 1 2 3 by blast
qed

text \<open>
  Claim C8 as it is stated fails: \<^verbatim>\<open>del argv[0]\<close> acts on the list stored in the
  descriptor, so the stored command \<^verbatim>\<open>["-", "false"]\<close> is \<^verbatim>\<open>["false"]\<close> after the hook.
\<close>

theorem runtest_alters_commands_counterexample:
  "commands (venv (snd (tox_runtest (\<lambda>h c. Inr []) False example_world)))
     \<noteq> commands (venv example_world)
   \<and> commands (venv (snd (tox_runtest (\<lambda>h c. Inr []) False example_world)))
     = [[''false''], [''pytest'']]"
  by (simp add: tox_runtest_loop run_command_Cons handle_outcome_simps at_call_def
        ignore_ret_of_def altered_def startswith_dash_def)

theorem runtest_writes_status_and_commands_witness:
  "commands (venv (snd (tox_runtest (\<lambda>h c. Inr []) False example_world))) ! 1 = [''pytest'']
   \<and> path (venv (snd (tox_runtest (\<lambda>h c. Inr []) False example_world)))
       = [''proj'', ''.tox'', ''py'']"
proof -
  let ?w' = "snd (tox_runtest (\<lambda>h c. Inr []) False example_world)"
  note t = runtest_writes_status_and_commands [of example_world "\<lambda>h c. Inr []" False]
  have "frame_venv (venv example_world) (venv ?w')" using t by blast
  then have p: "path (venv ?w') = [''proj'', ''.tox'', ''py'']"
    using frame_venv_fields(1)[of "venv example_world" "venv ?w'"] by simp
  have "\<forall>j<length (commands (venv example_world)).
          commands (venv ?w') ! j = commands (venv example_world) ! j
          \<or> (ignore_ret_of (commands (venv example_world) ! j) \<and>
             commands (venv ?w') ! j = altered (commands (venv example_world) ! j))"
    using t by blast
  moreover have "1 < length (commands (venv example_world))" by simp
  ultimately have "commands (venv ?w') ! 1 = commands (venv example_world) ! 1
        \<or> (ignore_ret_of (commands (venv example_world) ! 1) \<and>
           commands (venv ?w') ! 1 = altered (commands (venv example_world) ! 1))"
    by blast
  then have "commands (venv ?w') ! 1 = [''pytest'']"
    by (simp add: ignore_ret_of_def startswith_dash_def)
  with p show ?thesis by simp
qed

section \<open>Cloning the Pipfile\<close>








lemma example_paths [simp]:
  "root_pipfile (example_world\<lparr>nodes := ns\<rparr>) = [''proj'', ''Pipfile'']"
  "venv_pipfile (example_world\<lparr>nodes := ns\<rparr>) = [''proj'', ''.tox'', ''py'', ''Pipfile'']"
  "path (venv (example_world\<lparr>nodes := ns\<rparr>)) = [''proj'', ''.tox'', ''py'']"
  "root_pipfile example_world = [''proj'', ''Pipfile'']"
  "venv_pipfile example_world = [''proj'', ''.tox'', ''py'', ''Pipfile'']"
  "path (venv example_world) = [''proj'', ''.tox'', ''py'']"
  by (simp_all add: root_pipfile_def venv_pipfile_def path_join_def example_world_def
        example_venv_def)



section \<open>The environment report\<close>

lemma tox_runenvreport_result:
  "fst (tox_runenvreport run w) =
     (case run (calls w) (graph_call w) of Inl e \<Rightarrow> Inl e | Inr output \<Rightarrow> Inr (split_lines output))"
proof -
  obtain pp w2 where c: "clone_pipfile (init_pipenv_environ w) = (pp, w2)"
    by (cases "clone_pipfile (init_pipenv_environ w)")
  have w2: "venv w2 = venv w" "calls w2 = calls w" "sys_executable w2 = sys_executable w"
    using clone_pipfile_fields(3,4,7)[of "init_pipenv_environ w"] c by simp_all
  show ?thesis
    using c w2
    by (cases "run (calls w) (graph_call w)")
       (simp_all add: tox_runenvreport_def Let_def graph_call_def pcall_def)
qed

text \<open>
  Claim C7. When the \<^verbatim>\<open>pipenv graph\<close> invocation of \<^verbatim>\<open>tox_runenvreport\<close> returns the text
  \<open>text\<close>, the hook returns \<open>text\<close> split on newline characters: the pieces joined by
  newlines give \<open>text\<close> back, in their order, no piece holds a newline, no other
  sequence of pieces does both, and a text that ends in a newline gives an empty last
  piece.
\<close>

theorem envreport_returns_lines:
  assumes "run (calls w) (graph_call w) = Inr text"
  shows "fst (tox_runenvreport run w) = Inr (split_lines text)
       \<and> str_join [newline] (split_lines text) = text
       \<and> (\<forall>l\<in>set (split_lines text). newline \<notin> set l)
       \<and> (\<forall>ls. ls \<noteq> [] \<and> (\<forall>l\<in>set ls. newline \<notin> set l) \<and> str_join [newline] ls = text
               \<longrightarrow> ls = split_lines text)
       \<and> (\<forall>s. text = s @ [newline] \<longrightarrow> last (split_lines text) = [])"
proof -
  have 1: "fst (tox_runenvreport run w) = Inr (split_lines text)"
    using assms by (simp add: tox_runenvreport_result)
  have 2: "str_join [newline] (split_lines text) = text"
    by (rule join_split_lines)
  have 3: "\<forall>l\<in>set (split_lines text). newline \<notin> set l"
    using split_lines_no_newline by blast
  have 4: "\<forall>ls. ls \<noteq> [] \<and> (\<forall>l\<in>set ls. newline \<notin> set l) \<and> str_join [newline] ls = text
               \<longrightarrow> ls = split_lines text"
    using split_lines_join by metis
  have 5: "\<forall>s. text = s @ [newline] \<longrightarrow> last (split_lines text) = []"
    using split_lines_trailing by blast
  show ?thesis using 1 2 3 4 5 by blast
qed

theorem envreport_returns_lines_witness:
  "fst (tox_runenvreport (\<lambda>h c. Inr (''a==1'' @ [newline] @ ''b==2'' @ [newline])) example_world)
     = Inr [''a==1'', ''b==2'', '''']"
proof -
  let ?run = "(\<lambda>h c. Inr (''a==1'' @ [newline] @ ''b==2'' @ [newline])) :: runner"
  have h: "?run (calls example_world) (graph_call example_world)
             = Inr (''a==1'' @ [newline] @ ''b==2'' @ [newline])" by simp
  show ?thesis
    using envreport_returns_lines [OF h] by (simp add: newline_def)
qed

section \<open>The global flags\<close>

lemma init_pipenv_environ_environ:
  "environ (init_pipenv_environ w) =
     (environ w)(''PIPENV_ACTIVE'' \<mapsto> ''1'', ''PIPENV_IGNORE_VIRTUALENVS'' \<mapsto> ''1'',
                 ''PIPENV_YES'' \<mapsto> ''1'')"
  by (simp add: init_pipenv_environ_def)

lemma init_sets_flags: "pipenv_flags_set (init_pipenv_environ w)"
  by (simp add: pipenv_flags_set_def init_pipenv_environ_environ)

lemma wrap_keeps_flags:
  assumes "\<And>u. environ (snd (body u)) = environ u" and "pipenv_flags_set w"
  shows "pipenv_flags_set (snd (wrap_pipenv_environment pp body w))"
proof -
  have "\<And>k u. environ (snd (body u)) k = environ u k" using assms(1) by simp
  then have "\<And>k. k \<noteq> ''PIPENV_PIPFILE'' \<Longrightarrow> k \<noteq> ''PIPENV_VIRTUALENV'' \<Longrightarrow> k \<noteq> ''VIRTUAL_ENV''
               \<Longrightarrow> environ (snd (wrap_pipenv_environment pp body w)) k = environ w k"
    using wrap_environ_other[where body=body and pp=pp and w=w] by blast
  then show ?thesis
    using assms(2) by (simp add: pipenv_flags_set_def)
qed

lemma create_Inl:
  "getsupportedinterpreter (venv w) = Inl e \<Longrightarrow>
     tox_testenv_create run w = (Inl e, init_pipenv_environ w)"
  by (simp add: tox_testenv_create_def Let_def)

lemma create_Inr:
  assumes "getsupportedinterpreter (venv w) = Inr ci"
  shows "snd (tox_testenv_create run w) =
     snd (wrap_pipenv_environment (path_join (path (venv w)) ''Pipfile'')
            (pcall run (create_call w ci))
            (snd (clone_pipfile (ensure_dir (dirpath (path (venv w)))
                   (make_emptydir (path (venv w)) (init_pipenv_environ w))))))"
proof -
  let ?w3 = "ensure_dir (dirpath (path (venv w)))
               (make_emptydir (path (venv w)) (init_pipenv_environ w))"
  obtain pp w4 where c: "clone_pipfile ?w3 = (pp, w4)"
    by (cases "clone_pipfile ?w3")
  have pp: "pp = path_join (path (venv w)) ''Pipfile''"
    using clone_pipfile_fields(1)[of ?w3] c by simp
  have "tox_testenv_create run w =
          (case wrap_pipenv_environment pp (pcall run (create_call w ci)) w4 of
             (Inl e, w5) \<Rightarrow> (Inl e, w5) | (Inr v, w5) \<Rightarrow> (Inr True, w5))"
    unfolding tox_testenv_create_def Let_def
    using assms c by (simp add: create_call_def)
  then show ?thesis
    using c pp by (simp only: finish_hook snd_conv)
qed

lemma create_sets_flags: "pipenv_flags_set (snd (tox_testenv_create run w))"
proof (cases "getsupportedinterpreter (venv w)")
  case (Inl e)
  then show ?thesis by (simp add: create_Inl init_sets_flags)
next
  case (Inr ci)
  let ?w4 = "snd (clone_pipfile (ensure_dir (dirpath (path (venv w)))
                   (make_emptydir (path (venv w)) (init_pipenv_environ w))))"
  have "environ ?w4 = environ (init_pipenv_environ w)" by simp
  then have f4: "pipenv_flags_set ?w4"
    using init_sets_flags[of w] by (simp add: pipenv_flags_set_def)
  have b: "\<And>u. environ (snd (pcall run (create_call w ci) u)) = environ u" by simp
  show ?thesis
    unfolding create_Inr[OF Inr]
    using wrap_keeps_flags[where body="pcall run (create_call w ci)", OF b f4] .
qed

lemma install_deps_wrap:
  "snd (tox_testenv_install_deps run w) =
     snd (wrap_pipenv_environment (path_join (path (venv w)) ''Pipfile'')
            (\<lambda>u. pcall run (install_call w) (setactivity ''installdeps'' (install_activity w) u))
            (snd (clone_pipfile (ensure_dir (dirpath (path (venv w))) (init_pipenv_environ w)))))"
proof -
  let ?w2 = "ensure_dir (dirpath (path (venv w))) (init_pipenv_environ w)"
  obtain pp w3 where c: "clone_pipfile ?w2 = (pp, w3)"
    by (cases "clone_pipfile ?w2")
  have pp: "pp = path_join (path (venv w)) ''Pipfile''"
    using clone_pipfile_fields(1)[of ?w2] c by simp
  have w3: "venv w3 = venv w" "sys_executable w3 = sys_executable w"
    using clone_pipfile_fields(3,4)[of ?w2] c by simp_all
  have "tox_testenv_install_deps run w =
          (case wrap_pipenv_environment pp
                  (\<lambda>u. pcall run (install_call w)
                          (setactivity ''installdeps'' (install_activity w) u)) w3 of
             (Inl e, w6) \<Rightarrow> (Inl e, w6) | (Inr v, w6) \<Rightarrow> (Inr True, w6))"
    unfolding tox_testenv_install_deps_def Let_def
    using c w3 by (simp add: install_call_def install_activity_def)
  then show ?thesis
    using c pp by (simp only: finish_hook snd_conv)
qed

lemma install_deps_sets_flags: "pipenv_flags_set (snd (tox_testenv_install_deps run w))"
proof -
  let ?w3 = "snd (clone_pipfile (ensure_dir (dirpath (path (venv w))) (init_pipenv_environ w)))"
  have "environ ?w3 = environ (init_pipenv_environ w)" by simp
  then have f3: "pipenv_flags_set ?w3"
    using init_sets_flags[of w] by (simp add: pipenv_flags_set_def)
  have b: "\<And>u. environ (snd (pcall run (install_call w)
                 (setactivity ''installdeps'' (install_activity w) u))) = environ u" by simp
  show ?thesis
    unfolding install_deps_wrap
    using wrap_keeps_flags[where body="\<lambda>u. pcall run (install_call w)
            (setactivity ''installdeps'' (install_activity w) u)", OF b f3] .
qed

lemma run_commands_environ [simp]:
  "environ (snd (run_commands run redirect i cmds w)) = environ w"
  using run_commands_frame_loop[of w run redirect i cmds] by (simp add: frame_loop_def)

lemma runtest_sets_flags: "pipenv_flags_set (snd (tox_runtest run redirect w))"
proof -
  let ?w2 = "snd (clone_pipfile (init_pipenv_environ w))"
  let ?body = "\<lambda>w3. run_commands run redirect 0 (commands (venv w3))
                      (setactivity ''runtests''
                         (''PYTHONHASHSEED='' @ repr (environ w3 ''PYTHONHASHSEED'')) w3)"
  have "environ ?w2 = environ (init_pipenv_environ w)" by simp
  then have f2: "pipenv_flags_set ?w2"
    using init_sets_flags[of w] by (simp add: pipenv_flags_set_def)
  have b: "\<And>u. environ (snd (?body u)) = environ u" by simp
  have "pipenv_flags_set (snd (wrap_pipenv_environment (path_join (path (venv w)) ''Pipfile'')
                                 ?body ?w2))"
    using wrap_keeps_flags[where body="?body", OF b f2] .
  then show ?thesis
    by (simp only: tox_runtest_wrap finish_hook)
qed

lemma report_body_environ:
  "environ (snd (case pcall run c u of
                   (Inl e, w5) \<Rightarrow> (Inl e, w5)
                 | (Inr output, w5) \<Rightarrow> (Inr (split_lines output), w5))) = environ u"
  by (cases "run (calls u) c") (simp_all add: pcall_def)

lemma runenvreport_sets_flags: "pipenv_flags_set (snd (tox_runenvreport run w))"
proof -
  obtain pp w2 where c: "clone_pipfile (init_pipenv_environ w) = (pp, w2)"
    by (cases "clone_pipfile (init_pipenv_environ w)")
  let ?body = "\<lambda>w4. case pcall run \<lparr>call_args = [sys_executable w4, ''-m'', ''pipenv'', ''graph''],
                                     call_cwd = dirpath (path (venv w2)),
                                     call_redirect = True, call_ignore_ret = False\<rparr>
                            (setactivity ''runenvreport'' [] w4) of
                      (Inl e, w5) \<Rightarrow> (Inl e, w5)
                    | (Inr output, w5) \<Rightarrow> (Inr (split_lines output), w5)"
  let ?w3 = "ensure_dir (dirpath (path (venv w2))) w2"
  have u: "tox_runenvreport run w = wrap_pipenv_environment pp ?body ?w3"
    unfolding tox_runenvreport_def Let_def using c by simp
  have "environ w2 = environ (init_pipenv_environ w)"
    using clone_pipfile_fields(2)[of "init_pipenv_environ w"] c by simp
  then have "environ ?w3 = environ (init_pipenv_environ w)" by simp
  then have f3: "pipenv_flags_set ?w3"
    using init_sets_flags[of w] by (simp add: pipenv_flags_set_def)
  have b: "\<And>u. environ (snd (?body u)) = environ u"
    using report_body_environ by simp
  show ?thesis
    unfolding u using wrap_keeps_flags[where body="?body", OF b f3] .
qed

lemma pipenv_flags_set_iff: "pipenv_flags_set w = pipenv_flags (environ w)"
  by (simp add: pipenv_flags_set_def pipenv_flags_def)

lemma pcall_environ_updaters [simp]:
  "pcall_environ (set_environ k v w) = pcall_environ w"
  "pcall_environ (touch p w) = pcall_environ w"
  "pcall_environ (make_emptydir p w) = pcall_environ w"
  "pcall_environ (setactivity n m w) = pcall_environ w"
  "pcall_environ (report_warning m w) = pcall_environ w"
  "pcall_environ (report_error m w) = pcall_environ w"
  "pcall_environ (set_status s w) = pcall_environ w"
  "pcall_environ (alter_argv i a w) = pcall_environ w"
  "pcall_environ (restore_environ k old w) = pcall_environ w"
  by (simp_all add: set_environ_def ensure_dir_def touch_def make_emptydir_def
        setactivity_def report_warning_def report_error_def set_status_def alter_argv_def
        restore_environ_def)

lemma pcall_environ_pcall [simp]:
  "pcall_environ (snd (pcall run c w)) = pcall_environ w @ [environ w]"
  by (simp add: pcall_def)

lemma pcall_environ_init [simp]:
  "pcall_environ (init_pipenv_environ w) = pcall_environ w"
  by (simp add: init_pipenv_environ_def)

lemma pcall_environ_clone [simp]:
  "pcall_environ (snd (clone_pipfile w)) = pcall_environ w"
  by (simp add: clone_pipfile_def Let_def)

lemma pcall_environ_overlay [simp]:
  "pcall_environ (overlay pp w) = pcall_environ w"
  by (simp add: overlay_def)

lemma pcall_environ_wrap [simp]:
  "pcall_environ (snd (wrap_pipenv_environment pp body w))
     = pcall_environ (snd (body (overlay pp w)))"
  by (simp add: wrap_unfold split: prod.splits sum.splits)

lemma pcall_environ_handle_outcome [simp]:
  "pcall_environ (snd (handle_outcome r w)) = pcall_environ w"
  by (cases r; cases "projl r") (simp_all add: handle_outcome_simps)

lemma pcall_environ_at_call [simp]:
  "pcall_environ (at_call i argv w) = pcall_environ w"
  by (simp add: at_call_def)

lemma pcall_environ_run_command:
  "pcall_environ (snd (run_command run redirect i argv w))
     = (if argv = [] then pcall_environ w else pcall_environ w @ [environ w])"
  by (cases argv) (simp_all add: run_command_Nil run_command_Cons)

lemma pcall_environ_loop_start [simp]:
  "pcall_environ (loop_start w) = pcall_environ w"
  by (simp add: loop_start_def Let_def)

lemma overlay_keeps_flags: "pipenv_flags_set w \<Longrightarrow> pipenv_flags (environ (overlay pp w))"
  by (simp add: pipenv_flags_set_def pipenv_flags_def overlay_environ)

lemma run_commands_pcall_environ:
  "\<exists>n. pcall_environ (snd (run_commands run redirect i cmds w))
         = pcall_environ w @ replicate n (environ w)"
proof (induction cmds arbitrary: i w)
  case Nil
  have "pcall_environ w = pcall_environ w @ replicate 0 (environ w)" by simp
  then show ?case by (simp del: replicate.simps)
next
  case (Cons a rest)
  obtain f w1 where s: "run_command run redirect i a w = (f, w1)"
    by (cases "run_command run redirect i a w")
  have e1: "environ w1 = environ w"
    using run_command_fields(1)[of run redirect i a w] s by simp
  obtain m where p1: "pcall_environ w1 = pcall_environ w @ replicate m (environ w)"
  proof (cases "a = []")
    case True
    then have "pcall_environ w1 = pcall_environ w @ replicate 0 (environ w)"
      using pcall_environ_run_command[of run redirect i a w] s by simp
    then show ?thesis using that by blast
  next
    case False
    then have "pcall_environ w1 = pcall_environ w @ replicate 1 (environ w)"
      using pcall_environ_run_command[of run redirect i a w] s by simp
    then show ?thesis using that by blast
  qed
  have stop: "snd (run_commands run redirect i (a # rest) w) = w1 \<Longrightarrow> ?case"
    using p1 by auto
  show ?case
  proof (cases f)
    case Next
    with s have step: "run_commands run redirect i (a # rest) w
                   = run_commands run redirect (Suc i) rest w1"
      by (simp only: run_commands_Cons(1))
    obtain n where "pcall_environ (snd (run_commands run redirect (Suc i) rest w1))
                      = pcall_environ w1 @ replicate n (environ w1)"
      using Cons.IH[of "Suc i" w1] by blast
    then have "pcall_environ (snd (run_commands run redirect i (a # rest) w))
                 = pcall_environ w @ replicate (m + n) (environ w)"
      unfolding step using p1 e1 by (simp add: replicate_add)
    then show ?thesis by blast
  next
    case Break
    with s have "run_commands run redirect i (a # rest) w = (Inr (), w1)"
      by (simp only: run_commands_Cons(2))
    then show ?thesis using stop by simp
  next
    case (Raise x)
    with s have "run_commands run redirect i (a # rest) w = (Inl x, w1)"
      by (simp only: run_commands_Cons(3))
    then show ?thesis using stop by simp
  qed
qed

lemma made_with_flags_replicate:
  "pcall_environ w' = pcall_environ w @ replicate n e \<Longrightarrow> pipenv_flags e \<Longrightarrow>
     made_with_flags w w'"
  by (simp add: made_with_flags_def)

lemma made_with_flags_one:
  "pcall_environ w' = pcall_environ w @ [e] \<Longrightarrow> pipenv_flags e \<Longrightarrow> made_with_flags w w'"
  by (simp add: made_with_flags_def)

lemma made_with_flags_none:
  "pcall_environ w' = pcall_environ w \<Longrightarrow> made_with_flags w w'"
  by (simp add: made_with_flags_def)

lemma flags_after_init_clone:
  "environ u = environ (init_pipenv_environ w) \<Longrightarrow> pipenv_flags (environ (overlay pp u))"
proof -
  assume "environ u = environ (init_pipenv_environ w)"
  then have "pipenv_flags_set u"
    using init_sets_flags[of w] by (simp add: pipenv_flags_set_def)
  then show ?thesis by (rule overlay_keeps_flags)
qed

lemma create_made_with_flags: "made_with_flags w (snd (tox_testenv_create run w))"
proof (cases "getsupportedinterpreter (venv w)")
  case (Inl e)
  then show ?thesis by (simp add: create_Inl made_with_flags_none)
next
  case (Inr ci)
  let ?w4 = "snd (clone_pipfile (ensure_dir (dirpath (path (venv w)))
                   (make_emptydir (path (venv w)) (init_pipenv_environ w))))"
  let ?pp = "path_join (path (venv w)) ''Pipfile''"
  have e: "environ ?w4 = environ (init_pipenv_environ w)" by simp
  have "pcall_environ (snd (tox_testenv_create run w))
          = pcall_environ w @ [environ (overlay ?pp ?w4)]"
    unfolding create_Inr[OF Inr] by simp
  then show ?thesis
    using flags_after_init_clone[OF e] by (rule made_with_flags_one)
qed

lemma install_deps_made_with_flags: "made_with_flags w (snd (tox_testenv_install_deps run w))"
proof -
  let ?w3 = "snd (clone_pipfile (ensure_dir (dirpath (path (venv w))) (init_pipenv_environ w)))"
  let ?pp = "path_join (path (venv w)) ''Pipfile''"
  have e: "environ ?w3 = environ (init_pipenv_environ w)" by simp
  have "pcall_environ (snd (tox_testenv_install_deps run w))
          = pcall_environ w @ [environ (overlay ?pp ?w3)]"
    unfolding install_deps_wrap by simp
  then show ?thesis
    using flags_after_init_clone[OF e] by (rule made_with_flags_one)
qed

lemma runtest_made_with_flags: "made_with_flags w (snd (tox_runtest run redirect w))"
proof -
  let ?w2 = "snd (clone_pipfile (init_pipenv_environ w))"
  let ?pp = "path_join (path (venv w)) ''Pipfile''"
  let ?s = "setactivity ''runtests''
              (''PYTHONHASHSEED='' @ repr (environ (overlay ?pp ?w2) ''PYTHONHASHSEED''))
              (overlay ?pp ?w2)"
  have e: "environ ?w2 = environ (init_pipenv_environ w)" by simp
  have p: "pcall_environ (snd (tox_runtest run redirect w))
          = pcall_environ (snd (run_commands run redirect 0 (commands (venv w)) ?s))"
    by (simp only: tox_runtest_wrap finish_hook pcall_environ_wrap) simp
  obtain n where "pcall_environ (snd (run_commands run redirect 0 (commands (venv w)) ?s))
                    = pcall_environ ?s @ replicate n (environ ?s)"
    using run_commands_pcall_environ by blast
  then have "pcall_environ (snd (tox_runtest run redirect w))
               = pcall_environ w @ replicate n (environ (overlay ?pp ?w2))"
    using p by simp
  then show ?thesis
    using flags_after_init_clone[OF e] by (rule made_with_flags_replicate)
qed

lemma report_body_pcall_environ:
  "pcall_environ (snd (case pcall run c u of
                   (Inl e, w5) \<Rightarrow> (Inl e, w5)
                 | (Inr output, w5) \<Rightarrow> (Inr (split_lines output), w5)))
     = pcall_environ u @ [environ u]"
  by (cases "run (calls u) c") (simp_all add: pcall_def)

lemma runenvreport_made_with_flags: "made_with_flags w (snd (tox_runenvreport run w))"
proof -
  obtain pp w2 where c: "clone_pipfile (init_pipenv_environ w) = (pp, w2)"
    by (cases "clone_pipfile (init_pipenv_environ w)")
  let ?body = "\<lambda>w4. case pcall run \<lparr>call_args = [sys_executable w4, ''-m'', ''pipenv'', ''graph''],
                                     call_cwd = dirpath (path (venv w2)),
                                     call_redirect = True, call_ignore_ret = False\<rparr>
                            (setactivity ''runenvreport'' [] w4) of
                      (Inl e, w5) \<Rightarrow> (Inl e, w5)
                    | (Inr output, w5) \<Rightarrow> (Inr (split_lines output), w5)"
  let ?w3 = "ensure_dir (dirpath (path (venv w2))) w2"
  have u: "tox_runenvreport run w = wrap_pipenv_environment pp ?body ?w3"
    unfolding tox_runenvreport_def Let_def using c by simp
  have e2: "environ w2 = environ (init_pipenv_environ w)" "pcall_environ w2 = pcall_environ w"
    using clone_pipfile_fields(2)[of "init_pipenv_environ w"]
      pcall_environ_clone[of "init_pipenv_environ w"] c by simp_all
  then have e: "environ ?w3 = environ (init_pipenv_environ w)" by simp
  have "pcall_environ (snd (tox_runenvreport run w))
          = pcall_environ w @ [environ (overlay pp ?w3)]"
    unfolding u using e2 by (simp add: report_body_pcall_environ)
  then show ?thesis
    using flags_after_init_clone[OF e] by (rule made_with_flags_one)
qed

text \<open>
  Claim C9. Each of the four hooks sets \<^verbatim>\<open>PIPENV_ACTIVE\<close>, \<^verbatim>\<open>PIPENV_IGNORE_VIRTUALENVS\<close>
  and \<^verbatim>\<open>PIPENV_YES\<close> to \<^verbatim>\<open>"1"\<close> first and nothing after that assigns or removes them. So
  in the state a hook leaves behind, whether it returns or raises, the three flags are
  \<^verbatim>\<open>"1"\<close>, and every call of \<^verbatim>\<open>_pcall\<close> the hook makes is made in a process environment
  where they are \<^verbatim>\<open>"1"\<close>.
\<close>

theorem hooks_set_pipenv_flags:
  "pipenv_flags_set (snd (tox_testenv_create run w))
   \<and> pipenv_flags_set (snd (tox_testenv_install_deps run w))
   \<and> pipenv_flags_set (snd (tox_runtest run redirect w))
   \<and> pipenv_flags_set (snd (tox_runenvreport run w))
   \<and> made_with_flags w (snd (tox_testenv_create run w))
   \<and> made_with_flags w (snd (tox_testenv_install_deps run w))
   \<and> made_with_flags w (snd (tox_runtest run redirect w))
   \<and> made_with_flags w (snd (tox_runenvreport run w))"
  using create_sets_flags[of run w] install_deps_sets_flags[of run w]
    runtest_sets_flags[of run redirect w] runenvreport_sets_flags[of run w]
    create_made_with_flags[of w run] install_deps_made_with_flags[of w run]
    runtest_made_with_flags[of w run redirect] runenvreport_made_with_flags[of w run]
  by blast

theorem hooks_set_pipenv_flags_witness:
  "pcall_environ (snd (tox_testenv_create (\<lambda>h c. Inr []) example_world)) \<noteq> []
   \<and> hd (pcall_environ (snd (tox_testenv_create (\<lambda>h c. Inr []) example_world)))
        ''PIPENV_ACTIVE'' = Some ''1''
   \<and> hd (pcall_environ (snd (tox_testenv_create (\<lambda>h c. Inr []) example_world)))
        ''PIPENV_IGNORE_VIRTUALENVS'' = Some ''1''
   \<and> hd (pcall_environ (snd (tox_testenv_create (\<lambda>h c. Inr []) example_world)))
        ''PIPENV_YES'' = Some ''1''
   \<and> environ (snd (tox_testenv_create (\<lambda>h c. Inr []) example_world)) ''PIPENV_YES''
        = Some ''1''"
proof -
  let ?w' = "snd (tox_testenv_create (\<lambda>h c. Inr []) example_world)"
  have i: "getsupportedinterpreter (venv example_world) = Inr ''python3''"
    by (simp add: example_venv_def)
  have p: "\<exists>e. pcall_environ ?w' = [e]"
    unfolding create_Inr[OF i] by (simp add: example_world_def)
  note t = hooks_set_pipenv_flags [of "\<lambda>h c. Inr []" example_world]
  have "made_with_flags example_world ?w'" using t by blast
  then have "\<forall>e\<in>set (pcall_environ ?w'). pipenv_flags e"
    by (simp add: made_with_flags_def example_world_def)
  then have "pipenv_flags (hd (pcall_environ ?w'))" using p by auto
  moreover have "pipenv_flags_set ?w'" using t by blast
  ultimately show ?thesis
    using p by (auto simp: pipenv_flags_def pipenv_flags_set_def)
qed

end
